theory Spec2Isabelle
  imports Main "HOL-Library.Monad_Syntax"
begin

section \<open>Free store\<close>

text \<open>
  \<^verbatim>\<open>MyVector<T>\<close> (src/main.cpp) keeps three raw pointers to objects created with
  \<^verbatim>\<open>new\<close>: a \<^verbatim>\<open>std::vector<T>\<close>, a \<^verbatim>\<open>std::vector<std::string>\<close> and a
  \<^verbatim>\<open>size_t\<close> counter.  Several \<^verbatim>\<open>MyVector\<close> objects may hold the same pointers, so the
  objects behind the pointers live in an explicit store.  A store is a list of cells; the
  address of a cell is its position.  \<^verbatim>\<open>new\<close> appends a cell, so it always returns an
  address that no pointer holds yet; \<^verbatim>\<open>delete\<close> empties the cell.  Reading or deleting
  through a pointer whose cell is empty is undefined behaviour in C++; in the model every
  operation returns an \<open>option\<close> and \<open>None\<close> stands for undefined behaviour.
  Exhaustion of memory (\<^verbatim>\<open>std::bad_alloc\<close>) is not modelled.
\<close>

type_synonym addr = nat

type_synonym 'c mem = "'c option list"

definition cell :: "'c mem \<Rightarrow> addr \<Rightarrow> 'c option" where
  "cell M a = (if a < length M then M ! a else None)"

definition new :: "'c mem \<Rightarrow> 'c \<Rightarrow> addr \<times> 'c mem" where
  "new M c = (length M, M @ [Some c])"

definition delete :: "'c mem \<Rightarrow> addr \<Rightarrow> 'c mem option" where
  "delete M a = (case cell M a of None \<Rightarrow> None | Some c \<Rightarrow> Some (M[a := None]))"

definition store :: "'c mem \<Rightarrow> addr \<Rightarrow> 'c \<Rightarrow> 'c mem" where
  "store M a c = M[a := Some c]"

subsection \<open>The counter type\<close>

text \<open>
  The reference count is a \<^verbatim>\<open>size_t\<close>, taken as 64 bits wide: \<^verbatim>\<open>++\<close> and \<^verbatim>\<open>--\<close>
  wrap around.  Positions and sizes are also \<^verbatim>\<open>size_t\<close> in the source; they are only
  compared, never computed with, and are natural numbers here.
\<close>

definition size_t_inc :: "nat \<Rightarrow> nat" where
  "size_t_inc c = (c + 1) mod 2 ^ 64"

definition size_t_dec :: "nat \<Rightarrow> nat" where
  "size_t_dec c = (c + (2 ^ 64 - 1)) mod 2 ^ 64"

subsection \<open>Exceptions\<close>

text \<open>
  The two exceptions the source throws, each with its message, and the
  \<^verbatim>\<open>std::length_error\<close> that \<^verbatim>\<open>std::vector::reserve\<close> throws for a request above
  \<^verbatim>\<open>max_size()\<close> (its message is the library's own and is left out).
\<close>

datatype error = Out_of_range string | Invalid_argument string | Length_error

subsection \<open>The library vector\<close>

text \<open>
  What the source uses of \<^verbatim>\<open>std::vector\<close>: the element sequence, the capacity, and the
  storage that holds the elements.  A vector that needs more capacity moves its elements to
  new storage, and every reference and iterator into the old storage dangles from then on.
  \<open>buffer\<close> numbers the storages a vector has had: a reallocation increments it.
  \<^verbatim>\<open>reserve(n)\<close> throws when \<open>n\<close> exceeds \<^verbatim>\<open>max_size()\<close>, reallocates to capacity
  \<open>n\<close> when \<open>n\<close> exceeds the capacity, and does nothing otherwise; \<^verbatim>\<open>push_back\<close>
  reallocates when the vector is full (doubling, as the usual implementation does);
  \<^verbatim>\<open>clear\<close> keeps the storage; a copy is a new vector that fits its elements exactly.
  \<^verbatim>\<open>max_size()\<close> depends on the element type and on the implementation and is a
  parameter; it is below \<open>2 ^ 64\<close>, so a request within it is a \<^verbatim>\<open>size_t\<close>.  Growth by
  \<^verbatim>\<open>push_back\<close> beyond \<^verbatim>\<open>max_size()\<close> needs more memory than there is and belongs to
  the exhaustion of memory, which is not modelled.
\<close>

record 'e vec =
  elems :: "'e list"
  capacity :: nat
  buffer :: nat

definition vec_new :: "'e vec" where
  "vec_new = \<lparr>elems = [], capacity = 0, buffer = 0\<rparr>"

definition vec_copy :: "'e vec \<Rightarrow> 'e vec" where
  "vec_copy v = \<lparr>elems = elems v, capacity = length (elems v), buffer = 0\<rparr>"

definition vec_push_back :: "'e vec \<Rightarrow> 'e \<Rightarrow> 'e vec" where
  "vec_push_back v x =
     (if length (elems v) < capacity v then v\<lparr>elems := elems v @ [x]\<rparr>
      else \<lparr>elems = elems v @ [x],
            capacity = max (Suc (length (elems v))) (2 * capacity v),
            buffer = Suc (buffer v)\<rparr>)"

definition vec_reserve :: "nat \<Rightarrow> 'e vec \<Rightarrow> nat \<Rightarrow> error + 'e vec" where
  "vec_reserve max_size v n =
     (if max_size < n then Inl Length_error
      else if capacity v < n then Inr (v\<lparr>capacity := n, buffer := Suc (buffer v)\<rparr>)
      else Inr v)"

definition vec_clear :: "'e vec \<Rightarrow> 'e vec" where
  "vec_clear v = v\<lparr>elems := []\<rparr>"

text \<open>
  A reference to an element (\<^verbatim>\<open>T&\<close>, \<^verbatim>\<open>std::string&\<close>) and an iterator are both a
  vector's address, the storage of that vector they point into, and a position.
  \<^verbatim>\<open>std::vector::operator[]\<close> does not check its argument: a position outside the vector
  is undefined behaviour.
\<close>

datatype ref = Ref (ref_vector: addr) (ref_buffer: nat) (ref_pos: nat)

definition vec_at :: "'e vec \<Rightarrow> addr \<Rightarrow> nat \<Rightarrow> ref option" where
  "vec_at v a i = (if i < length (elems v) then Some (Ref a (buffer v) i) else None)"

text \<open>\<^verbatim>\<open>std::find(first, last, x)\<close> over a whole sequence: the distance from \<open>first\<close> of the
  first element equal to \<open>x\<close>, or of \<open>last\<close> when the scan reaches the end.\<close>

fun std_find :: "'e list \<Rightarrow> 'e \<Rightarrow> nat" where
  "std_find [] x = 0"
| "std_find (y # ys) x = (if y = x then 0 else Suc (std_find ys x))"

section \<open>Program state\<close>

text \<open>The data members of \<^verbatim>\<open>MyVector<T>\<close>, in declaration order.\<close>

record handle =
  m_values :: addr
  m_names :: addr
  m_ref_count :: addr

text \<open>
  The state holds the three stores and the \<^verbatim>\<open>MyVector\<close> objects themselves: an object
  is named by its position in \<open>objects\<close>, and the cell is emptied when the object is
  destroyed.
\<close>

record 'a state =
  values_mem :: "'a vec mem"
  names_mem :: "string vec mem"
  counts_mem :: "nat mem"
  objects :: "handle mem"

definition init :: "'a state" where
  "init = \<lparr>values_mem = [], names_mem = [], counts_mem = [], objects = []\<rparr>"

section \<open>The members of \<^verbatim>\<open>MyVector<T>\<close>\<close>

text \<open>
  \<^verbatim>\<open>MyVector()\<close>: the members are initialised in declaration order, so the vectors are
  allocated before the counter.  The result is the new object with the new state.
\<close>

definition MyVector :: "'a state \<Rightarrow> addr \<times> 'a state" where
  "MyVector s =
     (let (v, vm) = new (values_mem s) vec_new;
          (n, nm) = new (names_mem s) vec_new;
          (c, cm) = new (counts_mem s) 1;
          (this, om) = new (objects s) \<lparr>m_values = v, m_names = n, m_ref_count = c\<rparr>
      in (this, \<lparr>values_mem = vm, names_mem = nm, counts_mem = cm, objects = om\<rparr>))"

text \<open>\<^verbatim>\<open>MyVector(const MyVector &other)\<close>: copies the three pointers, then
  \<^verbatim>\<open>(*m_ref_count)++\<close>.\<close>

definition MyVector_copy :: "addr \<Rightarrow> 'a state \<Rightarrow> (addr \<times> 'a state) option" where
  "MyVector_copy other s = do {
     o' \<leftarrow> cell (objects s) other;
     let (this, om) = new (objects s)
           \<lparr>m_values = m_values o', m_names = m_names o', m_ref_count = m_ref_count o'\<rparr>;
     c \<leftarrow> cell (counts_mem s) (m_ref_count o');
     Some (this, s\<lparr>counts_mem := store (counts_mem s) (m_ref_count o') (size_t_inc c),
                   objects := om\<rparr>)
   }"

text \<open>\<^verbatim>\<open>~MyVector()\<close>: \<^verbatim>\<open>if (--(*m_ref_count) == 0)\<close> delete counter, values and names.\<close>

definition MyVector_destroy :: "addr \<Rightarrow> 'a state \<Rightarrow> 'a state option" where
  "MyVector_destroy this s = do {
     h \<leftarrow> cell (objects s) this;
     c \<leftarrow> cell (counts_mem s) (m_ref_count h);
     let cm = store (counts_mem s) (m_ref_count h) (size_t_dec c);
     om \<leftarrow> delete (objects s) this;
     if size_t_dec c = 0 then do {
       cm' \<leftarrow> delete cm (m_ref_count h);
       vm' \<leftarrow> delete (values_mem s) (m_values h);
       nm' \<leftarrow> delete (names_mem s) (m_names h);
       Some \<lparr>values_mem = vm', names_mem = nm', counts_mem = cm', objects = om\<rparr>
     } else Some (s\<lparr>counts_mem := cm, objects := om\<rparr>)
   }"

text \<open>
  The class declares no copy assignment operator, so \<^verbatim>\<open>a = b\<close> is the implicitly
  defined one: it assigns the three pointer members one by one and nothing else.
\<close>

definition MyVector_assign :: "addr \<Rightarrow> addr \<Rightarrow> 'a state \<Rightarrow> 'a state option" where
  "MyVector_assign this other s = do {
     h \<leftarrow> cell (objects s) this;
     o' \<leftarrow> cell (objects s) other;
     Some (s\<lparr>objects := store (objects s) this
               \<lparr>m_values = m_values o', m_names = m_names o',
                m_ref_count = m_ref_count o'\<rparr>\<rparr>)
   }"

text \<open>\<^verbatim>\<open>detach()\<close>: when \<^verbatim>\<open>*m_ref_count > 1\<close>, decrement the shared counter and
  point the three members at a new counter (1) and at copies of both vectors.\<close>

definition detach :: "addr \<Rightarrow> 'a state \<Rightarrow> 'a state option" where
  "detach this s = do {
     h \<leftarrow> cell (objects s) this;
     c \<leftarrow> cell (counts_mem s) (m_ref_count h);
     if 1 < c then do {
       let cm = store (counts_mem s) (m_ref_count h) (size_t_dec c);
       let (c', cm') = new cm 1;
       vs \<leftarrow> cell (values_mem s) (m_values h);
       let (v', vm') = new (values_mem s) (vec_copy vs);
       ns \<leftarrow> cell (names_mem s) (m_names h);
       let (n', nm') = new (names_mem s) (vec_copy ns);
       Some \<lparr>values_mem = vm', names_mem = nm', counts_mem = cm',
             objects = store (objects s) this
               \<lparr>m_values = v', m_names = n', m_ref_count = c'\<rparr>\<rparr>
     } else Some s
   }"

text \<open>\<^verbatim>\<open>push_back(value, name)\<close>: \<^verbatim>\<open>detach()\<close>, then append to both vectors.\<close>

definition push_back :: "'a \<Rightarrow> string \<Rightarrow> addr \<Rightarrow> 'a state \<Rightarrow> 'a state option" where
  "push_back val name this s = do {
     s1 \<leftarrow> detach this s;
     h \<leftarrow> cell (objects s1) this;
     vs \<leftarrow> cell (values_mem s1) (m_values h);
     ns \<leftarrow> cell (names_mem s1) (m_names h);
     Some (s1\<lparr>values_mem := store (values_mem s1) (m_values h) (vec_push_back vs val),
              names_mem := store (names_mem s1) (m_names h) (vec_push_back ns name)\<rparr>)
   }"

text \<open>
  \<^verbatim>\<open>operator[](size_t index)\<close>, the mutable one: range check, \<^verbatim>\<open>detach()\<close>, then
  \<^verbatim>\<open>return {*(*m_values)[index], (*m_names)[index]}\<close>.  The first component applies
  unary \<^verbatim>\<open>*\<close> to the stored element.  That operator belongs to the element type
  \<^verbatim>\<open>T\<close>, not to the class, so it is the parameter \<open>star\<close>: from the element, the
  \<^verbatim>\<open>T\<close> object its result refers to.  (For a \<^verbatim>\<open>T\<close> without unary \<^verbatim>\<open>*\<close>, such as
  \<^verbatim>\<open>int\<close>, this member does not compile.)
\<close>

definition subscript_index ::
  "('a \<Rightarrow> ref) \<Rightarrow> nat \<Rightarrow> addr \<Rightarrow> 'a state \<Rightarrow> ((error + ref \<times> ref) \<times> 'a state) option" where
  "subscript_index star index this s = do {
     h \<leftarrow> cell (objects s) this;
     vs \<leftarrow> cell (values_mem s) (m_values h);
     if index \<ge> length (elems vs) then Some (Inl (Out_of_range ''Index is out of range''), s)
     else do {
       s1 \<leftarrow> detach this s;
       h1 \<leftarrow> cell (objects s1) this;
       vs1 \<leftarrow> cell (values_mem s1) (m_values h1);
       ns1 \<leftarrow> cell (names_mem s1) (m_names h1);
       v \<leftarrow> vec_at vs1 (m_values h1) index;
       n \<leftarrow> vec_at ns1 (m_names h1) index;
       Some (Inr (star (elems vs1 ! ref_pos v), n), s1)
     }
   }"

text \<open>\<^verbatim>\<open>operator[](size_t index) const\<close>: range check, then the two element
  references.\<close>

definition subscript_index_const ::
  "nat \<Rightarrow> addr \<Rightarrow> 'a state \<Rightarrow> (error + ref \<times> ref) option" where
  "subscript_index_const index this s = do {
     h \<leftarrow> cell (objects s) this;
     vs \<leftarrow> cell (values_mem s) (m_values h);
     if index \<ge> length (elems vs) then Some (Inl (Out_of_range ''Index is out of range''))
     else do {
       ns \<leftarrow> cell (names_mem s) (m_names h);
       v \<leftarrow> vec_at vs (m_values h) index;
       n \<leftarrow> vec_at ns (m_names h) index;
       Some (Inr (v, n))
     }
   }"

text \<open>\<^verbatim>\<open>operator[](const std::string &name) const\<close>: \<^verbatim>\<open>std::find\<close> over the names;
  at the end iterator throw, otherwise the value at the same distance.\<close>

definition subscript_name_const ::
  "string \<Rightarrow> addr \<Rightarrow> 'a state \<Rightarrow> (error + ref) option" where
  "subscript_name_const name this s = do {
     h \<leftarrow> cell (objects s) this;
     ns \<leftarrow> cell (names_mem s) (m_names h);
     let iter = std_find (elems ns) name;
     if iter = length (elems ns)
     then Some (Inl (Invalid_argument (name @ '' is not found in the MyVector'')))
     else do {
       vs \<leftarrow> cell (values_mem s) (m_values h);
       v \<leftarrow> vec_at vs (m_values h) iter;
       Some (Inr v)
     }
   }"

text \<open>\<^verbatim>\<open>operator[](const std::string &name)\<close>, the mutable one: calls the const
  operator on \<^verbatim>\<open>this\<close> and casts the constness of the result away.\<close>

definition subscript_name ::
  "string \<Rightarrow> addr \<Rightarrow> 'a state \<Rightarrow> ((error + ref) \<times> 'a state) option" where
  "subscript_name name this s = do {
     r \<leftarrow> subscript_name_const name this s;
     Some (r, s)
   }"

text \<open>\<^verbatim>\<open>begin()\<close> and \<^verbatim>\<open>end()\<close> detach and return an iterator into the values;
  \<^verbatim>\<open>cbegin()\<close> and \<^verbatim>\<open>cend()\<close> return it without detaching.\<close>

definition begin_mut :: "addr \<Rightarrow> 'a state \<Rightarrow> (ref \<times> 'a state) option" where
  "begin_mut this s = do {
     s1 \<leftarrow> detach this s;
     h \<leftarrow> cell (objects s1) this;
     vs \<leftarrow> cell (values_mem s1) (m_values h);
     Some (Ref (m_values h) (buffer vs) 0, s1)
   }"

definition cbegin :: "addr \<Rightarrow> 'a state \<Rightarrow> ref option" where
  "cbegin this s = do {
     h \<leftarrow> cell (objects s) this;
     vs \<leftarrow> cell (values_mem s) (m_values h);
     Some (Ref (m_values h) (buffer vs) 0)
   }"

definition end_mut :: "addr \<Rightarrow> 'a state \<Rightarrow> (ref \<times> 'a state) option" where
  "end_mut this s = do {
     s1 \<leftarrow> detach this s;
     h \<leftarrow> cell (objects s1) this;
     vs \<leftarrow> cell (values_mem s1) (m_values h);
     Some (Ref (m_values h) (buffer vs) (length (elems vs)), s1)
   }"

definition cend :: "addr \<Rightarrow> 'a state \<Rightarrow> ref option" where
  "cend this s = do {
     h \<leftarrow> cell (objects s) this;
     vs \<leftarrow> cell (values_mem s) (m_values h);
     Some (Ref (m_values h) (buffer vs) (length (elems vs)))
   }"

text \<open>\<^verbatim>\<open>empty()\<close> and \<^verbatim>\<open>size()\<close> read the values vector.\<close>

definition empty_const :: "addr \<Rightarrow> 'a state \<Rightarrow> bool option" where
  "empty_const this s = do {
     h \<leftarrow> cell (objects s) this;
     vs \<leftarrow> cell (values_mem s) (m_values h);
     Some (elems vs = [])
   }"

definition size_const :: "addr \<Rightarrow> 'a state \<Rightarrow> nat option" where
  "size_const this s = do {
     h \<leftarrow> cell (objects s) this;
     vs \<leftarrow> cell (values_mem s) (m_values h);
     Some (length (elems vs))
   }"

text \<open>
  \<^verbatim>\<open>reserve(n)\<close>: \<^verbatim>\<open>m_values->reserve(n); m_names->reserve(n);\<close> and nothing
  before it.  \<open>max_values\<close> and \<open>max_names\<close> are \<^verbatim>\<open>max_size()\<close> of the two vector
  types.  An exception of the first call leaves the state as it was; one of the second
  call leaves the values already reserved.
\<close>

definition reserve ::
  "nat \<Rightarrow> nat \<Rightarrow> nat \<Rightarrow> addr \<Rightarrow> 'a state \<Rightarrow> ((error + unit) \<times> 'a state) option" where
  "reserve max_values max_names n this s = do {
     h \<leftarrow> cell (objects s) this;
     vs \<leftarrow> cell (values_mem s) (m_values h);
     case vec_reserve max_values vs n of
       Inl e \<Rightarrow> Some (Inl e, s)
     | Inr vs' \<Rightarrow> do {
         let s1 = s\<lparr>values_mem := store (values_mem s) (m_values h) vs'\<rparr>;
         ns \<leftarrow> cell (names_mem s1) (m_names h);
         case vec_reserve max_names ns n of
           Inl e \<Rightarrow> Some (Inl e, s1)
         | Inr ns' \<Rightarrow>
             Some (Inr (), s1\<lparr>names_mem := store (names_mem s1) (m_names h) ns'\<rparr>)
       }
   }"

text \<open>\<^verbatim>\<open>clear()\<close>: \<^verbatim>\<open>detach()\<close>, then clear both vectors.\<close>

definition clear :: "addr \<Rightarrow> 'a state \<Rightarrow> 'a state option" where
  "clear this s = do {
     s1 \<leftarrow> detach this s;
     h \<leftarrow> cell (objects s1) this;
     vs \<leftarrow> cell (values_mem s1) (m_values h);
     ns \<leftarrow> cell (names_mem s1) (m_names h);
     Some (s1\<lparr>values_mem := store (values_mem s1) (m_values h) (vec_clear vs),
              names_mem := store (names_mem s1) (m_names h) (vec_clear ns)\<rparr>)
   }"

section \<open>What a caller does with a reference\<close>

text \<open>
  Reading through a \<^verbatim>\<open>T&\<close> or a \<^verbatim>\<open>std::string&\<close>, and assigning through a
  \<^verbatim>\<open>T&\<close>.  The reference must still denote an element: the vector exists, it still
  has the storage the reference points into, and the position is within its size.  Anything
  else is a dangling reference, and using it is undefined.
\<close>

definition read_value :: "ref \<Rightarrow> 'a state \<Rightarrow> 'a option" where
  "read_value r s = do {
     vs \<leftarrow> cell (values_mem s) (ref_vector r);
     if ref_buffer r = buffer vs \<and> ref_pos r < length (elems vs)
     then Some (elems vs ! ref_pos r) else None
   }"

definition read_name :: "ref \<Rightarrow> 'a state \<Rightarrow> string option" where
  "read_name r s = do {
     ns \<leftarrow> cell (names_mem s) (ref_vector r);
     if ref_buffer r = buffer ns \<and> ref_pos r < length (elems ns)
     then Some (elems ns ! ref_pos r) else None
   }"

definition write_value :: "ref \<Rightarrow> 'a \<Rightarrow> 'a state \<Rightarrow> 'a state option" where
  "write_value r x s = do {
     vs \<leftarrow> cell (values_mem s) (ref_vector r);
     if ref_buffer r = buffer vs \<and> ref_pos r < length (elems vs)
     then Some (s\<lparr>values_mem := store (values_mem s) (ref_vector r)
                  (vs\<lparr>elems := (elems vs)[ref_pos r := x]\<rparr>)\<rparr>)
     else None
   }"

section \<open>Predicates used in the statements\<close>

text \<open>
  \<open>live s this h vs ns c\<close>: \<open>this\<close> is an object of the state with members \<open>h\<close>, its
  three pointers lead to the vectors \<open>vs\<close>, \<open>ns\<close> and to the counter value \<open>c\<close>, and
  the two vectors have the same length.
\<close>

definition live :: "'a state \<Rightarrow> addr \<Rightarrow> handle \<Rightarrow> 'a vec \<Rightarrow> string vec \<Rightarrow> nat \<Rightarrow> bool" where
  "live s this h vs ns c \<longleftrightarrow>
     cell (objects s) this = Some h \<and>
     cell (values_mem s) (m_values h) = Some vs \<and>
     cell (names_mem s) (m_names h) = Some ns \<and>
     cell (counts_mem s) (m_ref_count h) = Some c \<and>
     length (elems vs) = length (elems ns)"

text \<open>The number of objects of the state whose \<^verbatim>\<open>m_ref_count\<close> is the address \<open>c\<close>.\<close>

definition holders :: "'a state \<Rightarrow> addr \<Rightarrow> nat" where
  "holders s c = length (filter (\<lambda>ob. map_option m_ref_count ob = Some c) (objects s))"

text \<open>
  Two objects agree on whether they share: either all three of their pointers coincide or
  none does.
\<close>

definition consistent :: "handle \<Rightarrow> handle \<Rightarrow> bool" where
  "consistent h1 h2 \<longleftrightarrow>
     (m_ref_count h1 = m_ref_count h2 \<longleftrightarrow> m_values h1 = m_values h2) \<and>
     (m_ref_count h1 = m_ref_count h2 \<longleftrightarrow> m_names h1 = m_names h2)"

text \<open>
  A state is coherent when every object is live, every counter equals the number of its
  holders (and fits a \<^verbatim>\<open>size_t\<close>), and any two objects agree on whether they share.
\<close>

definition coherent :: "'a state \<Rightarrow> bool" where
  "coherent s \<longleftrightarrow>
     (\<forall>this h. cell (objects s) this = Some h \<longrightarrow> (\<exists>vs ns c. live s this h vs ns c)) \<and>
     (\<forall>c n. cell (counts_mem s) c = Some n \<longrightarrow> n = holders s c \<and> n < 2 ^ 64) \<and>
     (\<forall>t1 t2 h1 h2. cell (objects s) t1 = Some h1 \<longrightarrow> cell (objects s) t2 = Some h2
        \<longrightarrow> consistent h1 h2)"

text \<open>
  \<open>untouched s s' other\<close>: the object \<open>other\<close> has the same members in \<open>s'\<close> as in \<open>s\<close>,
  and the vectors it points to are the same, so everything the const members show through
  it is the same.
\<close>

definition untouched :: "'a state \<Rightarrow> 'a state \<Rightarrow> addr \<Rightarrow> bool" where
  "untouched s s' other \<longleftrightarrow>
     (case cell (objects s) other of None \<Rightarrow> False
      | Some ho \<Rightarrow> cell (objects s') other = Some ho
          \<and> cell (values_mem s') (m_values ho) = cell (values_mem s) (m_values ho)
          \<and> cell (names_mem s') (m_names ho) = cell (names_mem s) (m_names ho))"

section \<open>Example states\<close>

text \<open>
  \<^verbatim>\<open>max_size()\<close> of \<^verbatim>\<open>std::vector<unsigned>\<close> and of
  \<^verbatim>\<open>std::vector<std::string>\<close> where a pointer has 64 bits, an \<^verbatim>\<open>unsigned\<close> 4 bytes
  and a string 32: the largest object has \<open>2 ^ 63 - 1\<close> bytes.
\<close>

definition max_size_unsigned :: nat where
  "max_size_unsigned = (2 ^ 63 - 1) div 4"

definition max_size_string :: nat where
  "max_size_string = (2 ^ 63 - 1) div 32"

text \<open>\<^verbatim>\<open>MyVector<unsigned> a; a.push_back(1, "a");\<close>\<close>

definition one_entry :: "nat state" where
  "one_entry =
     \<lparr>values_mem = [Some \<lparr>elems = [1], capacity = 1, buffer = 1\<rparr>],
      names_mem = [Some \<lparr>elems = [''a''], capacity = 1, buffer = 1\<rparr>],
      counts_mem = [Some 1],
      objects = [Some \<lparr>m_values = 0, m_names = 0, m_ref_count = 0\<rparr>]\<rparr>"

text \<open>\<dots> followed by \<^verbatim>\<open>MyVector<unsigned> b(a);\<close>\<close>

definition shared_pair :: "nat state" where
  "shared_pair =
     \<lparr>values_mem = [Some \<lparr>elems = [1], capacity = 1, buffer = 1\<rparr>],
      names_mem = [Some \<lparr>elems = [''a''], capacity = 1, buffer = 1\<rparr>],
      counts_mem = [Some 2],
      objects = [Some \<lparr>m_values = 0, m_names = 0, m_ref_count = 0\<rparr>,
                 Some \<lparr>m_values = 0, m_names = 0, m_ref_count = 0\<rparr>]\<rparr>"

text \<open>\<^verbatim>\<open>MyVector<unsigned> a; a.push_back(1, "a"); a.push_back(2, "b"); a.push_back(3, "a");\<close>\<close>

definition three_entries :: "nat state" where
  "three_entries =
     \<lparr>values_mem = [Some \<lparr>elems = [1, 2, 3], capacity = 4, buffer = 3\<rparr>],
      names_mem = [Some \<lparr>elems = [''a'', ''b'', ''a''], capacity = 4, buffer = 3\<rparr>],
      counts_mem = [Some 1],
      objects = [Some \<lparr>m_values = 0, m_names = 0, m_ref_count = 0\<rparr>]\<rparr>"

text \<open>\<^verbatim>\<open>MyVector<unsigned> a; MyVector<unsigned> b;\<close>\<close>

definition two_empty :: "nat state" where
  "two_empty =
     \<lparr>values_mem = [Some \<lparr>elems = [], capacity = 0, buffer = 0\<rparr>, Some \<lparr>elems = [], capacity = 0, buffer = 0\<rparr>],
      names_mem = [Some \<lparr>elems = [], capacity = 0, buffer = 0\<rparr>, Some \<lparr>elems = [], capacity = 0, buffer = 0\<rparr>],
      counts_mem = [Some 1, Some 1],
      objects = [Some \<lparr>m_values = 0, m_names = 0, m_ref_count = 0\<rparr>,
                 Some \<lparr>m_values = 1, m_names = 1, m_ref_count = 1\<rparr>]\<rparr>"

text \<open>\<dots> followed by \<^verbatim>\<open>b = a;\<close>\<close>

definition two_assigned :: "nat state" where
  "two_assigned =
     \<lparr>values_mem = [Some \<lparr>elems = [], capacity = 0, buffer = 0\<rparr>, Some \<lparr>elems = [], capacity = 0, buffer = 0\<rparr>],
      names_mem = [Some \<lparr>elems = [], capacity = 0, buffer = 0\<rparr>, Some \<lparr>elems = [], capacity = 0, buffer = 0\<rparr>],
      counts_mem = [Some 1, Some 1],
      objects = [Some \<lparr>m_values = 0, m_names = 0, m_ref_count = 0\<rparr>,
                 Some \<lparr>m_values = 0, m_names = 0, m_ref_count = 0\<rparr>]\<rparr>"

text \<open>
  An element type with a unary \<^verbatim>\<open>*\<close>: a link that points to another link and whose
  \<^verbatim>\<open>operator*\<close> returns the link it points to,
  \<^verbatim>\<open>struct Link { Link *target; Link &operator*() { return *target; } };\<close>
  A link is its pointer, which is the reference its \<^verbatim>\<open>*\<close> returns.
\<close>

definition link_star :: "ref \<Rightarrow> ref" where
  "link_star link = link"

text \<open>A \<^verbatim>\<open>MyVector<Link>\<close> with two entries: \<open>x\<close> points to the element at position 1
  of the stored vector and \<open>y\<close> to the one at position 0.\<close>

definition two_links :: "ref state" where
  "two_links =
     \<lparr>values_mem = [Some \<lparr>elems = [Ref 0 2 1, Ref 0 2 0], capacity = 2, buffer = 2\<rparr>],
      names_mem = [Some \<lparr>elems = [''x'', ''y''], capacity = 2, buffer = 2\<rparr>],
      counts_mem = [Some 1],
      objects = [Some \<lparr>m_values = 0, m_names = 0, m_ref_count = 0\<rparr>]\<rparr>"

section \<open>Facts about the store and the library functions\<close>

lemmas store_ops = cell_def new_def store_def delete_def size_t_inc_def size_t_dec_def
  vec_new_def vec_copy_def vec_push_back_def vec_reserve_def vec_clear_def vec_at_def

lemma cell_Some_less: "cell M a = Some c \<Longrightarrow> a < length M"
  by (simp add: cell_def split: if_splits)

lemma cell_store:
  "cell (store M a c) b = (if b = a \<and> a < length M then Some c else cell M b)"
  by (simp add: cell_def store_def)

lemma cell_snoc:
  "cell (M @ [x]) b = (if b < length M then cell M b else if b = length M then x else None)"
  by (simp add: cell_def nth_append)

lemma length_store: "length (store M a c) = length M"
  by (simp add: store_def)

lemma size_t_dec_pred:
  assumes "0 < c" "c < 2 ^ 64"
  shows "size_t_dec c = c - 1"
proof -
  from assms obtain k where k: "c = Suc k" "k < 2 ^ 64"
    by (cases c) auto
  have "Suc k + (2 ^ 64 - 1) = k + (2 ^ 64 :: nat)" by simp
  then have "(Suc k + (2 ^ 64 - 1)) mod 2 ^ 64 = k mod (2 ^ 64 :: nat)"
    by (simp only: mod_add_self2)
  with k show ?thesis by (simp add: size_t_dec_def)
qed

lemma std_find_le: "std_find xs x \<le> length xs"
  by (induction xs) auto

lemma std_find_end: "std_find xs x = length xs \<longleftrightarrow> x \<notin> set xs"
  using std_find_le [of xs x] by (induction xs) (auto simp: Suc_le_eq dest: le_neq_implies_less)

lemma std_find_first:
  "i < length xs \<Longrightarrow> xs ! i = x \<Longrightarrow> (\<forall>j<i. xs ! j \<noteq> x) \<Longrightarrow> std_find xs x = i"
proof (induction xs arbitrary: i)
  case Nil
  then show ?case by simp
next
  case (Cons y ys)
  show ?case
  proof (cases i)
    case 0
    with Cons.prems show ?thesis by simp
  next
    case (Suc k)
    with Cons.prems have "y \<noteq> x" by auto
    moreover have "std_find ys x = k"
      using Cons.prems Suc by (intro Cons.IH) auto
    ultimately show ?thesis using Suc by simp
  qed
qed

section \<open>The example states are reached by running the members\<close>

lemma one_entry_run:
  "(let (a, s) = MyVector init in push_back 1 ''a'' a s) = Some one_entry"
  by (simp add: MyVector_def init_def push_back_def detach_def one_entry_def store_ops)

lemma shared_pair_run: "MyVector_copy 0 one_entry = Some (1, shared_pair)"
  by (simp add: MyVector_copy_def one_entry_def shared_pair_def store_ops)

lemma three_entries_run:
  "(let (a, s) = MyVector init in
      do { s \<leftarrow> push_back 1 ''a'' a s; s \<leftarrow> push_back 2 ''b'' a s; push_back 3 ''a'' a s })
   = Some three_entries"
  by (simp add: MyVector_def init_def push_back_def detach_def three_entries_def store_ops)

lemma two_empty_run:
  "(let (a, s) = MyVector init; (b, s) = MyVector s in (a, b, s)) = (0, 1, two_empty)"
  by (simp add: MyVector_def init_def two_empty_def store_ops)

text \<open>The links are pushed as null pointers (any value will do for one) and then set to
  the addresses of the stored elements.\<close>

lemma two_links_run:
  "(let (a, s) = MyVector init in
      do { s \<leftarrow> push_back (Ref 0 0 0) ''x'' a s; s \<leftarrow> push_back (Ref 0 0 0) ''y'' a s;
           s \<leftarrow> write_value (Ref 0 2 0) (Ref 0 2 1) s; write_value (Ref 0 2 1) (Ref 0 2 0) s })
   = Some two_links"
  by (simp add: MyVector_def init_def push_back_def detach_def write_value_def two_links_def
      store_ops)

lemma live_one_entry:
  "live one_entry 0 \<lparr>m_values = 0, m_names = 0, m_ref_count = 0\<rparr>
     \<lparr>elems = [1], capacity = 1, buffer = 1\<rparr> \<lparr>elems = [''a''], capacity = 1, buffer = 1\<rparr> 1"
  by (simp add: live_def one_entry_def cell_def)

lemma live_shared_pair:
  "live shared_pair 1 \<lparr>m_values = 0, m_names = 0, m_ref_count = 0\<rparr>
     \<lparr>elems = [1], capacity = 1, buffer = 1\<rparr> \<lparr>elems = [''a''], capacity = 1, buffer = 1\<rparr> 2"
  by (simp add: live_def shared_pair_def cell_def)

lemma live_three_entries:
  "live three_entries 0 \<lparr>m_values = 0, m_names = 0, m_ref_count = 0\<rparr>
     \<lparr>elems = [1, 2, 3], capacity = 4, buffer = 3\<rparr> \<lparr>elems = [''a'', ''b'', ''a''], capacity = 4, buffer = 3\<rparr> 1"
  by (simp add: live_def three_entries_def cell_def)

lemma live_two_links:
  "live two_links 0 \<lparr>m_values = 0, m_names = 0, m_ref_count = 0\<rparr>
     \<lparr>elems = [Ref 0 2 1, Ref 0 2 0], capacity = 2, buffer = 2\<rparr>
     \<lparr>elems = [''x'', ''y''], capacity = 2, buffer = 2\<rparr> 1"
  by (simp add: live_def two_links_def cell_def)

section \<open>Detaching\<close>

lemma detach_exclusive:
  "cell (objects s) this = Some h \<Longrightarrow> cell (counts_mem s) (m_ref_count h) = Some c \<Longrightarrow> c \<le> 1
   \<Longrightarrow> detach this s = Some s"
  by (simp add: detach_def)

lemma detach_shared:
  assumes "cell (objects s) this = Some h" "cell (counts_mem s) (m_ref_count h) = Some c" "1 < c"
    "cell (values_mem s) (m_values h) = Some vs" "cell (names_mem s) (m_names h) = Some ns"
  shows "detach this s = Some
     \<lparr>values_mem = values_mem s @ [Some (vec_copy vs)],
      names_mem = names_mem s @ [Some (vec_copy ns)],
      counts_mem = store (counts_mem s) (m_ref_count h) (size_t_dec c) @ [Some 1],
      objects = store (objects s) this
        \<lparr>m_values = length (values_mem s), m_names = length (names_mem s),
         m_ref_count = length (counts_mem s)\<rparr>\<rparr>"
  using assms by (simp add: detach_def new_def length_store)

text \<open>After \<open>detach\<close> the object is still live and sees the same elements in the same
  order.\<close>

lemma detach_live:
  assumes "live s this h vs ns c"
  shows "\<exists>s1 h1 vs1 ns1 c1. detach this s = Some s1 \<and> live s1 this h1 vs1 ns1 c1
           \<and> elems vs1 = elems vs \<and> elems ns1 = elems ns \<and> c1 = (if 1 < c then 1 else c)"
proof (cases "1 < c")
  case True
  let ?h' = "\<lparr>m_values = length (values_mem s), m_names = length (names_mem s),
              m_ref_count = length (counts_mem s)\<rparr>"
  let ?s' = "\<lparr>values_mem = values_mem s @ [Some (vec_copy vs)],
      names_mem = names_mem s @ [Some (vec_copy ns)],
      counts_mem = store (counts_mem s) (m_ref_count h) (size_t_dec c) @ [Some 1],
      objects = store (objects s) this ?h'\<rparr>"
  from True assms have d: "detach this s = Some ?s'"
    by (intro detach_shared) (simp_all add: live_def)
  from assms have "this < length (objects s)"
    by (auto simp: live_def dest: cell_Some_less)
  then have "live ?s' this ?h' (vec_copy vs) (vec_copy ns) 1"
    using assms by (simp add: live_def cell_store cell_snoc length_store vec_copy_def)
  moreover have "elems (vec_copy vs) = elems vs" "elems (vec_copy ns) = elems ns"
    by (simp_all add: vec_copy_def)
  moreover have "(1::nat) = (if 1 < c then 1 else c)"
    using True by simp
  ultimately show ?thesis using d by blast
next
  case False
  with assms have "detach this s = Some s"
    by (simp add: detach_def live_def)
  with assms False show ?thesis by auto
qed

section \<open>Coherent states\<close>

lemma count_update:
  "i < length xs \<Longrightarrow>
   length (filter P (xs[i := y])) + (if P (xs ! i) then 1 else 0)
     = length (filter P xs) + (if P y then 1 else 0)"
proof (induction xs arbitrary: i)
  case Nil
  then show ?case by simp
next
  case (Cons x xs)
  then show ?case by (cases i) auto
qed

lemma holders_snoc:
  "objects s' = objects s @ [Some h] \<Longrightarrow>
   holders s' c = holders s c + (if m_ref_count h = c then 1 else 0)"
  by (simp add: holders_def)

lemma holders_store:
  assumes "cell (objects s) this = Some h" "objects s' = store (objects s) this h'"
  shows "holders s' c + (if m_ref_count h = c then 1 else 0)
           = holders s c + (if m_ref_count h' = c then 1 else 0)"
proof -
  from assms(1) have "this < length (objects s)" "objects s ! this = Some h"
    by (simp_all add: cell_def split: if_splits)
  with count_update [of this "objects s" "\<lambda>ob. map_option m_ref_count ob = Some c" "Some h'"]
  show ?thesis by (simp add: holders_def assms(2) store_def)
qed

lemma holders_delete:
  assumes "cell (objects s) this = Some h" "objects s' = (objects s)[this := None]"
  shows "holders s' c + (if m_ref_count h = c then 1 else 0) = holders s c"
proof -
  from assms(1) have "this < length (objects s)" "objects s ! this = Some h"
    by (simp_all add: cell_def split: if_splits)
  with count_update [of this "objects s" "\<lambda>ob. map_option m_ref_count ob = Some c" None]
  show ?thesis by (simp add: holders_def assms(2))
qed

lemma holders_same: "objects s' = objects s \<Longrightarrow> holders s' c = holders s c"
  by (simp add: holders_def)

lemma holders_zero:
  assumes "\<And>this h. cell (objects s) this = Some h \<Longrightarrow> m_ref_count h \<noteq> c"
  shows "holders s c = 0"
proof -
  have "\<not> (map_option m_ref_count ob = Some c)" if "ob \<in> set (objects s)" for ob
  proof (cases ob)
    case None
    then show ?thesis by simp
  next
    case (Some h)
    from that obtain i where "i < length (objects s)" "objects s ! i = ob"
      by (auto simp: in_set_conv_nth)
    with Some have "cell (objects s) i = Some h" by (simp add: cell_def)
    with assms Some show ?thesis by auto
  qed
  then show ?thesis by (simp add: holders_def)
qed

lemma holders_two:
  assumes "cell (objects s) t1 = Some h1" "cell (objects s) t2 = Some h2" "t1 \<noteq> t2"
    "m_ref_count h1 = c" "m_ref_count h2 = c"
  shows "2 \<le> holders s c"
proof -
  let ?P = "\<lambda>ob. map_option m_ref_count ob = Some c"
  from assms have "{t1, t2} \<subseteq> {i. i < length (objects s) \<and> ?P (objects s ! i)}"
    by (auto simp: cell_def split: if_splits)
  then have "card {t1, t2} \<le> card {i. i < length (objects s) \<and> ?P (objects s ! i)}"
    by (intro card_mono) simp_all
  with assms(3) show ?thesis
    by (simp add: holders_def length_filter_conv_card)
qed

lemma holders_one:
  assumes "cell (objects s) t = Some h"
  shows "1 \<le> holders s (m_ref_count h)"
proof -
  let ?P = "\<lambda>ob. map_option m_ref_count ob = Some (m_ref_count h)"
  from assms have "{t} \<subseteq> {i. i < length (objects s) \<and> ?P (objects s ! i)}"
    by (auto simp: cell_def split: if_splits)
  then have "card {t} \<le> card {i. i < length (objects s) \<and> ?P (objects s ! i)}"
    by (intro card_mono) simp_all
  then show ?thesis
    by (simp add: holders_def length_filter_conv_card)
qed

lemma coherent_init: "coherent init"
  by (simp add: coherent_def init_def cell_def)

lemma coherentI:
  assumes "\<And>this h. cell (objects s) this = Some h \<Longrightarrow> \<exists>vs ns c. live s this h vs ns c"
    and "\<And>c n. cell (counts_mem s) c = Some n \<Longrightarrow> n = holders s c \<and> n < 2 ^ 64"
    and "\<And>t1 t2 h1 h2. cell (objects s) t1 = Some h1 \<Longrightarrow> cell (objects s) t2 = Some h2
           \<Longrightarrow> consistent h1 h2"
  shows "coherent s"
  using assms unfolding coherent_def by blast

lemma coherent_live:
  "coherent s \<Longrightarrow> cell (objects s) this = Some h \<Longrightarrow> \<exists>vs ns c. live s this h vs ns c"
  unfolding coherent_def by blast

lemma coherent_count:
  "coherent s \<Longrightarrow> cell (counts_mem s) c = Some n \<Longrightarrow> n = holders s c \<and> n < 2 ^ 64"
  unfolding coherent_def by blast

lemma coherent_consistent:
  "coherent s \<Longrightarrow> cell (objects s) t1 = Some h1 \<Longrightarrow> cell (objects s) t2 = Some h2
   \<Longrightarrow> consistent h1 h2"
  unfolding coherent_def by blast

lemma live_bounds:
  assumes "live s this h vs ns c"
  shows "this < length (objects s)" "m_values h < length (values_mem s)"
    "m_names h < length (names_mem s)" "m_ref_count h < length (counts_mem s)"
  using assms by (auto simp: live_def dest: cell_Some_less)

lemma coherent_bounds:
  assumes "coherent s" "cell (objects s) this = Some h"
  shows "m_values h < length (values_mem s)" "m_names h < length (names_mem s)"
    "m_ref_count h < length (counts_mem s)"
proof -
  from coherent_live [OF assms] obtain vs ns c where "live s this h vs ns c"
    by blast
  from live_bounds(2-4) [OF this]
  show "m_values h < length (values_mem s)" "m_names h < length (names_mem s)"
    "m_ref_count h < length (counts_mem s)" .
qed

text \<open>A live object's counter is at least 1 in a coherent state.\<close>

lemma coherent_count_pos:
  assumes "coherent s" "live s this h vs ns c"
  shows "1 \<le> c" "c < 2 ^ 64" "c = holders s (m_ref_count h)"
proof -
  from assms have "cell (counts_mem s) (m_ref_count h) = Some c" "cell (objects s) this = Some h"
    by (simp_all add: live_def)
  with assms(1) coherent_count [of s "m_ref_count h" c] holders_one [of s this h]
  show "1 \<le> c" "c < 2 ^ 64" "c = holders s (m_ref_count h)" by simp_all
qed

lemma coherent_detach_shared:
  assumes coh: "coherent s" and l: "live s this h vs ns c" and shared: "1 < c"
  defines "h' \<equiv> \<lparr>m_values = length (values_mem s), m_names = length (names_mem s),
              m_ref_count = length (counts_mem s)\<rparr>"
  defines "s' \<equiv> \<lparr>values_mem = values_mem s @ [Some (vec_copy vs)],
      names_mem = names_mem s @ [Some (vec_copy ns)],
      counts_mem = store (counts_mem s) (m_ref_count h) (size_t_dec c) @ [Some 1],
      objects = store (objects s) this h'\<rparr>"
  shows "coherent s'"
proof (rule coherentI)
  note b = live_bounds [OF l]
  have obj: "cell (objects s) this = Some h"
    using l by (simp add: live_def)
  have dec: "size_t_dec c = c - 1"
    using shared coherent_count_pos(2) [OF coh l] by (intro size_t_dec_pred) simp_all
  have objs': "objects s' = store (objects s) this h'"
    by (simp add: s'_def)
  {
    fix t ht
    assume t: "cell (objects s') t = Some ht"
    show "\<exists>vs ns c. live s' t ht vs ns c"
    proof (cases "t = this")
      case True
      with t b have "ht = h'"
        by (simp add: s'_def cell_store)
      moreover have "live s' this h' (vec_copy vs) (vec_copy ns) 1"
        using l b by (simp add: s'_def h'_def live_def cell_store cell_snoc length_store vec_copy_def)
      ultimately show ?thesis using True by blast
    next
      case False
      with t have old: "cell (objects s) t = Some ht"
        by (simp add: s'_def cell_store)
      from coherent_live [OF coh old] obtain vt nt ct where lt: "live s t ht vt nt ct"
        by blast
      note bt = live_bounds [OF lt]
      have "live s' t ht vt nt (if m_ref_count ht = m_ref_count h then size_t_dec c else ct)"
        using lt bt t by (simp add: s'_def live_def cell_store cell_snoc length_store)
      then show ?thesis by blast
    qed
  next
    fix k n
    assume k: "cell (counts_mem s') k = Some n"
    have hs: "holders s' k + (if m_ref_count h = k then 1 else 0)
            = holders s k + (if m_ref_count h' = k then 1 else 0)"
      using obj objs' by (rule holders_store)
    show "n = holders s' k \<and> n < 2 ^ 64"
    proof (cases "k = m_ref_count h")
      case True
      with k b dec have "n = c - 1"
        by (simp add: s'_def cell_store cell_snoc length_store)
      moreover from True hs b have "holders s' k + 1 = holders s k"
        by (simp add: h'_def)
      moreover have "c = holders s k" "c < 2 ^ 64"
        using coherent_count_pos [OF coh l] True by simp_all
      ultimately show ?thesis by linarith
    next
      case False
      show ?thesis
      proof (cases "k < length (counts_mem s)")
        case True
        with k False have "cell (counts_mem s) k = Some n"
          by (simp add: s'_def cell_store cell_snoc length_store)
        moreover from True False hs have "holders s' k = holders s k"
          by (simp add: h'_def)
        ultimately show ?thesis using coherent_count [OF coh] by simp
      next
        case past: False
        with k have kn: "k = length (counts_mem s)" "n = 1"
          by (simp_all add: s'_def cell_snoc length_store split: if_splits)
        have "holders s k = 0"
        proof (rule holders_zero)
          fix t ht assume "cell (objects s) t = Some ht"
          from coherent_bounds(3) [OF coh this] kn show "m_ref_count ht \<noteq> k" by simp
        qed
        with hs kn False show ?thesis by (simp add: h'_def)
      qed
    qed
  next
    fix t1 t2 h1 h2
    assume t: "cell (objects s') t1 = Some h1" "cell (objects s') t2 = Some h2"
    have new_old: "consistent h' ho \<and> consistent ho h'" if "cell (objects s) t = Some ho" for t ho
      using coherent_bounds [OF coh that] by (auto simp: consistent_def h'_def)
    have refl: "consistent h' h'"
      by (simp add: consistent_def)
    from t b have c1: "(t1 = this \<and> h1 = h') \<or> (t1 \<noteq> this \<and> cell (objects s) t1 = Some h1)"
      and c2: "(t2 = this \<and> h2 = h') \<or> (t2 \<noteq> this \<and> cell (objects s) t2 = Some h2)"
      by (auto simp: s'_def cell_store split: if_splits)
    with new_old refl coherent_consistent [OF coh] show "consistent h1 h2"
      by blast
  }
qed

lemma coherent_detach:
  assumes "coherent s" "detach this s = Some s'"
  shows "coherent s'"
proof -
  from assms(2) obtain h where obj: "cell (objects s) this = Some h"
    by (cases "cell (objects s) this") (simp_all add: detach_def)
  from coherent_live [OF assms(1) obj] obtain vs ns c where l: "live s this h vs ns c"
    by blast
  show ?thesis
  proof (cases "1 < c")
    case True
    with l have "detach this s = Some
     \<lparr>values_mem = values_mem s @ [Some (vec_copy vs)],
      names_mem = names_mem s @ [Some (vec_copy ns)],
      counts_mem = store (counts_mem s) (m_ref_count h) (size_t_dec c) @ [Some 1],
      objects = store (objects s) this
        \<lparr>m_values = length (values_mem s), m_names = length (names_mem s),
         m_ref_count = length (counts_mem s)\<rparr>\<rparr>"
      by (intro detach_shared) (simp_all add: live_def)
    with assms(2) coherent_detach_shared [OF assms(1) l True] show ?thesis by simp
  next
    case False
    with l have "detach this s = Some s"
      by (simp add: detach_def live_def)
    with assms show ?thesis by simp
  qed
qed

text \<open>Replacing both vectors of an object's block by vectors of equal length.\<close>

lemma coherent_update_block:
  assumes coh: "coherent s" and l: "live s this h vs ns c"
    and len: "length (elems vs') = length (elems ns')"
  defines "s' \<equiv> s\<lparr>values_mem := store (values_mem s) (m_values h) vs',
                  names_mem := store (names_mem s) (m_names h) ns'\<rparr>"
  shows "coherent s'"
proof (rule coherentI)
  note b = live_bounds [OF l]
  have obj: "cell (objects s) this = Some h"
    using l by (simp add: live_def)
  {
    fix t ht
    assume "cell (objects s') t = Some ht"
    then have old: "cell (objects s) t = Some ht"
      by (simp add: s'_def)
    from coherent_live [OF coh old] obtain vt nt ct where lt: "live s t ht vt nt ct"
      by blast
    from coherent_consistent [OF coh old obj]
    have "m_values ht = m_values h \<longleftrightarrow> m_names ht = m_names h"
      by (auto simp: consistent_def)
    then have "live s' t ht (if m_values ht = m_values h then vs' else vt)
        (if m_values ht = m_values h then ns' else nt) ct"
      using lt b len by (simp add: s'_def live_def cell_store)
    then show "\<exists>vs ns c. live s' t ht vs ns c" by blast
  next
    fix k n
    assume "cell (counts_mem s') k = Some n"
    then have "cell (counts_mem s) k = Some n"
      by (simp add: s'_def)
    moreover have "holders s' k = holders s k"
      by (simp add: s'_def holders_def)
    ultimately show "n = holders s' k \<and> n < 2 ^ 64"
      using coherent_count [OF coh] by simp
  next
    fix t1 t2 h1 h2
    assume "cell (objects s') t1 = Some h1" "cell (objects s') t2 = Some h2"
    then have "cell (objects s) t1 = Some h1" "cell (objects s) t2 = Some h2"
      by (simp_all add: s'_def)
    then show "consistent h1 h2" by (rule coherent_consistent [OF coh])
  }
qed

lemma coherent_MyVector:
  assumes coh: "coherent s"
  shows "coherent (snd (MyVector s))"
proof -
  define h' where "h' = \<lparr>m_values = length (values_mem s), m_names = length (names_mem s),
              m_ref_count = length (counts_mem s)\<rparr>"
  define s' where "s' = \<lparr>values_mem = values_mem s @ [Some vec_new],
      names_mem = names_mem s @ [Some vec_new], counts_mem = counts_mem s @ [Some 1],
      objects = objects s @ [Some h']\<rparr>"
  have run: "snd (MyVector s) = s'"
    by (simp add: MyVector_def new_def s'_def h'_def)
  have "coherent s'"
  proof (rule coherentI)
    fix t ht
    assume t: "cell (objects s') t = Some ht"
    show "\<exists>vs ns c. live s' t ht vs ns c"
    proof (cases "t < length (objects s)")
      case True
      with t have old: "cell (objects s) t = Some ht"
        by (simp add: s'_def cell_snoc)
      from coherent_live [OF coh old] obtain vt nt ct where lt: "live s t ht vt nt ct"
        by blast
      note bt = live_bounds [OF lt]
      have "live s' t ht vt nt ct"
        using lt bt by (simp add: s'_def live_def cell_snoc)
      then show ?thesis by blast
    next
      case False
      with t have "t = length (objects s)" "ht = h'"
        by (simp_all add: s'_def cell_snoc split: if_splits)
      moreover have "live s' (length (objects s)) h' vec_new vec_new 1"
        by (simp add: s'_def h'_def live_def cell_snoc vec_new_def)
      ultimately show ?thesis by blast
    qed
  next
    fix k n
    assume k: "cell (counts_mem s') k = Some n"
    have hs: "holders s' k = holders s k + (if m_ref_count h' = k then 1 else 0)"
      by (rule holders_snoc) (simp add: s'_def)
    show "n = holders s' k \<and> n < 2 ^ 64"
    proof (cases "k < length (counts_mem s)")
      case True
      with k have "cell (counts_mem s) k = Some n"
        by (simp add: s'_def cell_snoc)
      with True hs coherent_count [OF coh] show ?thesis
        by (simp add: h'_def)
    next
      case False
      with k have kn: "k = length (counts_mem s)" "n = 1"
        by (simp_all add: s'_def cell_snoc split: if_splits)
      have "holders s k = 0"
      proof (rule holders_zero)
        fix t ht assume "cell (objects s) t = Some ht"
        from coherent_bounds(3) [OF coh this] kn show "m_ref_count ht \<noteq> k" by simp
      qed
      with hs kn show ?thesis by (simp add: h'_def)
    qed
  next
    fix t1 t2 h1 h2
    assume t: "cell (objects s') t1 = Some h1" "cell (objects s') t2 = Some h2"
    have new_old: "consistent h' ho \<and> consistent ho h'" if "cell (objects s) t = Some ho" for t ho
      using coherent_bounds [OF coh that] by (auto simp: consistent_def h'_def)
    have refl: "consistent h' h'"
      by (simp add: consistent_def)
    from t have c1: "h1 = h' \<or> cell (objects s) t1 = Some h1"
      and c2: "h2 = h' \<or> cell (objects s) t2 = Some h2"
      by (auto simp: s'_def cell_snoc split: if_splits)
    with new_old refl coherent_consistent [OF coh] show "consistent h1 h2"
      by blast
  qed
  with run show ?thesis by simp
qed

text \<open>The copy constructor keeps the state coherent as long as the counter does not wrap,
  that is, unless \<open>2 ^ 64 - 1\<close> objects already share the block.\<close>

lemma coherent_MyVector_copy:
  assumes coh: "coherent s" and run: "MyVector_copy other s = Some (this, s')"
    and room: "\<And>h c. cell (objects s) other = Some h
                \<Longrightarrow> cell (counts_mem s) (m_ref_count h) = Some c \<Longrightarrow> c + 1 < 2 ^ 64"
  shows "coherent s'"
proof -
  from run obtain ho where obj: "cell (objects s) other = Some ho"
    by (cases "cell (objects s) other") (simp_all add: MyVector_copy_def)
  from coherent_live [OF coh obj] obtain vs ns c where l: "live s other ho vs ns c"
    by blast
  note b = live_bounds [OF l]
  define h' where "h' = \<lparr>m_values = m_values ho, m_names = m_names ho,
              m_ref_count = m_ref_count ho\<rparr>"
  have inc: "size_t_inc c = c + 1"
    using room [OF obj] l by (simp add: size_t_inc_def live_def)
  have s': "s' = s\<lparr>counts_mem := store (counts_mem s) (m_ref_count ho) (c + 1),
                   objects := objects s @ [Some h']\<rparr>"
    using run l inc by (simp add: MyVector_copy_def new_def live_def h'_def)
  show ?thesis
  proof (rule coherentI)
    fix t ht
    assume t: "cell (objects s') t = Some ht"
    show "\<exists>vs ns c. live s' t ht vs ns c"
    proof (cases "t < length (objects s)")
      case True
      with t have old: "cell (objects s) t = Some ht"
        by (simp add: s' cell_snoc)
      from coherent_live [OF coh old] obtain vt nt ct where lt: "live s t ht vt nt ct"
        by blast
      have "live s' t ht vt nt (if m_ref_count ht = m_ref_count ho then c + 1 else ct)"
        using lt True b by (simp add: s' live_def cell_snoc cell_store)
      then show ?thesis by blast
    next
      case False
      with t have "t = length (objects s)" "ht = h'"
        by (simp_all add: s' cell_snoc split: if_splits)
      moreover have "live s' (length (objects s)) h' vs ns (c + 1)"
        using l b by (simp add: s' h'_def live_def cell_snoc cell_store)
      ultimately show ?thesis by blast
    qed
  next
    fix k n
    assume k: "cell (counts_mem s') k = Some n"
    have hs: "holders s' k = holders s k + (if m_ref_count h' = k then 1 else 0)"
      by (rule holders_snoc) (simp add: s')
    show "n = holders s' k \<and> n < 2 ^ 64"
    proof (cases "k = m_ref_count ho")
      case True
      with k b have "n = c + 1"
        by (simp add: s' cell_store)
      moreover have "c = holders s k"
        using coherent_count_pos(3) [OF coh l] True by simp
      moreover have "c + 1 < 2 ^ 64"
        using room [OF obj] l by (simp add: live_def)
      ultimately show ?thesis using hs True by (simp add: h'_def)
    next
      case False
      with k have "cell (counts_mem s) k = Some n"
        by (simp add: s' cell_store)
      with False hs coherent_count [OF coh] show ?thesis
        by (simp add: h'_def)
    qed
  next
    fix t1 t2 h1 h2
    assume t: "cell (objects s') t1 = Some h1" "cell (objects s') t2 = Some h2"
    have new_old: "consistent h' hx \<and> consistent hx h'" if "cell (objects s) t = Some hx" for t hx
      using coherent_consistent [OF coh obj that] coherent_consistent [OF coh that obj]
      by (auto simp: consistent_def h'_def)
    have refl: "consistent h' h'"
      by (simp add: consistent_def)
    from t have c1: "h1 = h' \<or> cell (objects s) t1 = Some h1"
      and c2: "h2 = h' \<or> cell (objects s) t2 = Some h2"
      by (auto simp: s' cell_snoc split: if_splits)
    with new_old refl coherent_consistent [OF coh] show "consistent h1 h2"
      by blast
  qed
qed

lemma cell_clear: "cell (M[a := None]) b = (if b = a then None else cell M b)"
  by (simp add: cell_def)

lemma coherent_MyVector_destroy:
  assumes coh: "coherent s" and run: "MyVector_destroy this s = Some s'"
  shows "coherent s'"
proof -
  from run obtain h where obj: "cell (objects s) this = Some h"
    by (cases "cell (objects s) this") (simp_all add: MyVector_destroy_def)
  from coherent_live [OF coh obj] obtain vs ns c where l: "live s this h vs ns c"
    by blast
  note b = live_bounds [OF l]
  note cp = coherent_count_pos [OF coh l]
  have dec: "size_t_dec c = c - 1"
    using cp by (intro size_t_dec_pred) simp_all
  have hs: "holders s' k + (if m_ref_count h = k then 1 else 0) = holders s k"
    if "objects s' = (objects s)[this := None]" for k
    using obj that by (rule holders_delete)
  show ?thesis
  proof (cases "c = 1")
    case True
    have s': "s' = \<lparr>values_mem = (values_mem s)[m_values h := None],
        names_mem = (names_mem s)[m_names h := None],
        counts_mem = (store (counts_mem s) (m_ref_count h) 0)[m_ref_count h := None],
        objects = (objects s)[this := None]\<rparr>"
      using run l dec True b
      by (simp add: MyVector_destroy_def live_def delete_def cell_store)
    have alone: "m_ref_count ht \<noteq> m_ref_count h \<and> m_values ht \<noteq> m_values h
        \<and> m_names ht \<noteq> m_names h"
      if "cell (objects s) t = Some ht" "t \<noteq> this" for t ht
    proof -
      have "m_ref_count ht \<noteq> m_ref_count h"
      proof
        assume "m_ref_count ht = m_ref_count h"
        with holders_two [OF that(1) obj that(2), of "m_ref_count h"] cp(3) True
        show False by simp
      qed
      with coherent_consistent [OF coh that(1) obj] show ?thesis
        by (simp add: consistent_def)
    qed
    show ?thesis
    proof (rule coherentI)
      fix t ht
      assume t: "cell (objects s') t = Some ht"
      then have old: "cell (objects s) t = Some ht" "t \<noteq> this"
        by (auto simp: s' cell_clear split: if_splits)
      from coherent_live [OF coh old(1)] obtain vt nt ct where lt: "live s t ht vt nt ct"
        by blast
      have "live s' t ht vt nt ct"
        using lt alone [OF old] t by (simp add: s' live_def cell_clear cell_store)
      then show "\<exists>vs ns c. live s' t ht vs ns c" by blast
    next
      fix k n
      assume k: "cell (counts_mem s') k = Some n"
      then have "k \<noteq> m_ref_count h" "cell (counts_mem s) k = Some n"
        by (auto simp: s' cell_clear cell_store split: if_splits)
      moreover from this hs [of k] have "holders s' k = holders s k"
        by (simp add: s')
      ultimately show "n = holders s' k \<and> n < 2 ^ 64"
        using coherent_count [OF coh] by simp
    next
      fix t1 t2 h1 h2
      assume "cell (objects s') t1 = Some h1" "cell (objects s') t2 = Some h2"
      then have "cell (objects s) t1 = Some h1" "cell (objects s) t2 = Some h2"
        by (auto simp: s' cell_clear split: if_splits)
      then show "consistent h1 h2" by (rule coherent_consistent [OF coh])
    qed
  next
    case False
    with cp have c2: "1 < c" by simp
    have s': "s' = s\<lparr>counts_mem := store (counts_mem s) (m_ref_count h) (c - 1),
        objects := (objects s)[this := None]\<rparr>"
      using run l dec c2 b
      by (simp add: MyVector_destroy_def live_def delete_def)
    show ?thesis
    proof (rule coherentI)
      fix t ht
      assume t: "cell (objects s') t = Some ht"
      then have old: "cell (objects s) t = Some ht"
        by (auto simp: s' cell_clear split: if_splits)
      from coherent_live [OF coh old] obtain vt nt ct where lt: "live s t ht vt nt ct"
        by blast
      have "live s' t ht vt nt (if m_ref_count ht = m_ref_count h then c - 1 else ct)"
        using lt b t by (simp add: s' live_def cell_store cell_clear)
      then show "\<exists>vs ns c. live s' t ht vs ns c" by blast
    next
      fix k n
      assume k: "cell (counts_mem s') k = Some n"
      have hk: "holders s' k + (if m_ref_count h = k then 1 else 0) = holders s k"
        by (rule hs) (simp add: s')
      show "n = holders s' k \<and> n < 2 ^ 64"
      proof (cases "k = m_ref_count h")
        case True
        with k b have "n = c - 1"
          by (simp add: s' cell_store)
        with True hk cp show ?thesis by simp linarith
      next
        case False
        with k have "cell (counts_mem s) k = Some n"
          by (simp add: s' cell_store)
        with False hk coherent_count [OF coh] show ?thesis by simp
      qed
    next
      fix t1 t2 h1 h2
      assume "cell (objects s') t1 = Some h1" "cell (objects s') t2 = Some h2"
      then have "cell (objects s) t1 = Some h1" "cell (objects s) t2 = Some h2"
        by (auto simp: s' cell_clear split: if_splits)
      then show "consistent h1 h2" by (rule coherent_consistent [OF coh])
    qed
  qed
qed

text \<open>In a coherent state \<open>detach\<close> leaves the object as the only holder of its block.\<close>

lemma detach_exclusive_after:
  assumes coh: "coherent s" and run: "detach this s = Some s1"
  shows "coherent s1 \<and> (\<exists>h1 vs1 ns1. live s1 this h1 vs1 ns1 1)"
proof -
  from run obtain h where obj: "cell (objects s) this = Some h"
    by (cases "cell (objects s) this") (simp_all add: detach_def)
  from coherent_live [OF coh obj] obtain vs ns c where l: "live s this h vs ns c"
    by blast
  from detach_live [OF l] run obtain h1 vs1 ns1 where
    "live s1 this h1 vs1 ns1 (if 1 < c then 1 else c)"
    by auto
  moreover have "(if 1 < c then 1 else c) = 1"
    using coherent_count_pos(1) [OF coh l] by simp
  ultimately show ?thesis
    using coherent_detach [OF coh run] by auto
qed

lemma exclusive_apart:
  assumes "coherent s" "live s this h vs ns 1" "cell (objects s) other = Some ho" "other \<noteq> this"
  shows "m_ref_count ho \<noteq> m_ref_count h \<and> m_values ho \<noteq> m_values h \<and> m_names ho \<noteq> m_names h"
proof -
  have obj: "cell (objects s) this = Some h"
    using assms(2) by (simp add: live_def)
  have "m_ref_count ho \<noteq> m_ref_count h"
  proof
    assume "m_ref_count ho = m_ref_count h"
    with holders_two [OF assms(3) obj assms(4), of "m_ref_count h"]
      coherent_count_pos(3) [OF assms(1,2)]
    show False by simp
  qed
  with coherent_consistent [OF assms(1,3) obj] show ?thesis
    by (simp add: consistent_def)
qed

text \<open>\<open>detach\<close> on one object leaves every other object, and the vectors it points to,
  untouched.\<close>

lemma detach_frame:
  assumes coh: "coherent s" and run: "detach this s = Some s'"
    and other: "cell (objects s) other = Some ho" "other \<noteq> this"
  shows "cell (objects s') other = Some ho
       \<and> cell (values_mem s') (m_values ho) = cell (values_mem s) (m_values ho)
       \<and> cell (names_mem s') (m_names ho) = cell (names_mem s) (m_names ho)"
proof -
  from run obtain h where obj: "cell (objects s) this = Some h"
    by (cases "cell (objects s) this") (simp_all add: detach_def)
  from coherent_live [OF coh obj] obtain vs ns c where l: "live s this h vs ns c"
    by blast
  note bo = coherent_bounds [OF coh other(1)]
  show ?thesis
  proof (cases "1 < c")
    case True
    with l have "detach this s = Some
     \<lparr>values_mem = values_mem s @ [Some (vec_copy vs)],
      names_mem = names_mem s @ [Some (vec_copy ns)],
      counts_mem = store (counts_mem s) (m_ref_count h) (size_t_dec c) @ [Some 1],
      objects = store (objects s) this
        \<lparr>m_values = length (values_mem s), m_names = length (names_mem s),
         m_ref_count = length (counts_mem s)\<rparr>\<rparr>"
      by (intro detach_shared) (simp_all add: live_def)
    with run other bo show ?thesis
      by (auto simp: cell_store cell_snoc)
  next
    case False
    with l have "detach this s = Some s"
      by (simp add: detach_def live_def)
    with run other show ?thesis by simp
  qed
qed

subsection \<open>The mutators that detach first\<close>

lemma push_back_steps:
  assumes coh: "coherent s" and run: "push_back val name this s = Some s'"
  shows "\<exists>s1 h1 vs1 ns1. detach this s = Some s1 \<and> coherent s1 \<and> live s1 this h1 vs1 ns1 1
       \<and> s' = s1\<lparr>values_mem := store (values_mem s1) (m_values h1) (vec_push_back vs1 val),
                  names_mem := store (names_mem s1) (m_names h1) (vec_push_back ns1 name)\<rparr>"
proof -
  from run obtain s1 where d: "detach this s = Some s1"
    by (cases "detach this s") (simp_all add: push_back_def)
  from detach_exclusive_after [OF coh d] obtain h1 vs1 ns1 where
    c1: "coherent s1" and l1: "live s1 this h1 vs1 ns1 1"
    by blast
  from run d l1 have
    "s' = s1\<lparr>values_mem := store (values_mem s1) (m_values h1) (vec_push_back vs1 val),
             names_mem := store (names_mem s1) (m_names h1) (vec_push_back ns1 name)\<rparr>"
    by (simp add: push_back_def live_def)
  with d c1 l1 show ?thesis by blast
qed

lemma clear_steps:
  assumes coh: "coherent s" and run: "clear this s = Some s'"
  shows "\<exists>s1 h1 vs1 ns1. detach this s = Some s1 \<and> coherent s1 \<and> live s1 this h1 vs1 ns1 1
       \<and> s' = s1\<lparr>values_mem := store (values_mem s1) (m_values h1) (vec_clear vs1),
                  names_mem := store (names_mem s1) (m_names h1) (vec_clear ns1)\<rparr>"
proof -
  from run obtain s1 where d: "detach this s = Some s1"
    by (cases "detach this s") (simp_all add: clear_def)
  from detach_exclusive_after [OF coh d] obtain h1 vs1 ns1 where
    c1: "coherent s1" and l1: "live s1 this h1 vs1 ns1 1"
    by blast
  from run d l1 have
    "s' = s1\<lparr>values_mem := store (values_mem s1) (m_values h1) (vec_clear vs1),
             names_mem := store (names_mem s1) (m_names h1) (vec_clear ns1)\<rparr>"
    by (simp add: clear_def live_def)
  with d c1 l1 show ?thesis by blast
qed

lemma coherent_push_back:
  assumes "coherent s" "push_back val name this s = Some s'"
  shows "coherent s'"
proof -
  from push_back_steps [OF assms] obtain s1 h1 vs1 ns1 where
    c1: "coherent s1" and l1: "live s1 this h1 vs1 ns1 1" and
    s': "s' = s1\<lparr>values_mem := store (values_mem s1) (m_values h1) (vec_push_back vs1 val),
                 names_mem := store (names_mem s1) (m_names h1) (vec_push_back ns1 name)\<rparr>"
    by blast
  have "length (elems (vec_push_back vs1 val)) = length (elems (vec_push_back ns1 name))"
    using l1 by (simp add: vec_push_back_def live_def)
  from coherent_update_block [OF c1 l1 this] s' show ?thesis by simp
qed

lemma coherent_clear:
  assumes "coherent s" "clear this s = Some s'"
  shows "coherent s'"
proof -
  from clear_steps [OF assms] obtain s1 h1 vs1 ns1 where
    c1: "coherent s1" and l1: "live s1 this h1 vs1 ns1 1" and
    s': "s' = s1\<lparr>values_mem := store (values_mem s1) (m_values h1) (vec_clear vs1),
                 names_mem := store (names_mem s1) (m_names h1) (vec_clear ns1)\<rparr>"
    by blast
  have "length (elems (vec_clear vs1)) = length (elems (vec_clear ns1))"
    by (simp add: vec_clear_def)
  from coherent_update_block [OF c1 l1 this] s' show ?thesis by simp
qed

lemma store_same: "cell M a = Some c \<Longrightarrow> store M a c = M"
  by (simp add: cell_def store_def list_update_same_conv split: if_splits)

text \<open>Whatever \<open>reserve\<close> returns, the state differs at most in the two vectors of the
  object's block, and their elements are the same.\<close>

lemma reserve_state:
  assumes l: "live s this h vs ns c"
    and run: "reserve max_values max_names n this s = Some (r, s')"
  shows "\<exists>vs' ns'. elems vs' = elems vs \<and> elems ns' = elems ns
       \<and> s' = s\<lparr>values_mem := store (values_mem s) (m_values h) vs',
                 names_mem := store (names_mem s) (m_names h) ns'\<rparr>"
proof -
  from l have c: "cell (objects s) this = Some h" "cell (values_mem s) (m_values h) = Some vs"
      "cell (names_mem s) (m_names h) = Some ns"
    by (simp_all add: live_def)
  have same: "s = s\<lparr>values_mem := store (values_mem s) (m_values h) vs,
                    names_mem := store (names_mem s) (m_names h) ns\<rparr>"
    using c by (simp add: store_same)
  show ?thesis
  proof (cases "vec_reserve max_values vs n")
    case (Inl e)
    with run c have "s' = s"
      by (simp add: reserve_def)
    with same show ?thesis by blast
  next
    case (Inr vs')
    then have ev: "elems vs' = elems vs"
      by (auto simp: vec_reserve_def split: if_splits)
    show ?thesis
    proof (cases "vec_reserve max_names ns n")
      case (Inl e)
      with run c Inr have "s' = s\<lparr>values_mem := store (values_mem s) (m_values h) vs'\<rparr>"
        by (simp add: reserve_def)
      then have "s' = s\<lparr>values_mem := store (values_mem s) (m_values h) vs',
                       names_mem := store (names_mem s) (m_names h) ns\<rparr>"
        using c by (simp add: store_same)
      with ev show ?thesis by blast
    next
      case ns': (Inr ns')
      then have en: "elems ns' = elems ns"
        by (auto simp: vec_reserve_def split: if_splits)
      from run c Inr ns' have "s' = s\<lparr>values_mem := store (values_mem s) (m_values h) vs',
                       names_mem := store (names_mem s) (m_names h) ns'\<rparr>"
        by (simp add: reserve_def)
      with ev en show ?thesis by blast
    qed
  qed
qed

lemma coherent_reserve:
  assumes coh: "coherent s" and run: "reserve max_values max_names n this s = Some (r, s')"
  shows "coherent s'"
proof -
  from run obtain h where obj: "cell (objects s) this = Some h"
    by (cases "cell (objects s) this") (simp_all add: reserve_def)
  from coherent_live [OF coh obj] obtain vs ns c where l: "live s this h vs ns c"
    by blast
  from reserve_state [OF l run] obtain vs' ns' where
    e: "elems vs' = elems vs" "elems ns' = elems ns" and
    s': "s' = s\<lparr>values_mem := store (values_mem s) (m_values h) vs',
                names_mem := store (names_mem s) (m_names h) ns'\<rparr>"
    by blast
  have "length (elems vs') = length (elems ns')"
    using l e by (simp add: live_def)
  from coherent_update_block [OF coh l this] s' show ?thesis by simp
qed

lemma subscript_index_state:
  assumes "subscript_index star index this s = Some (r, s')"
  shows "s' = s \<or> detach this s = Some s'"
  using assms
  by (auto simp: subscript_index_def split: Option.bind_splits if_splits)

lemma begin_mut_state: "begin_mut this s = Some (r, s') \<Longrightarrow> detach this s = Some s'"
  by (auto simp: begin_mut_def split: Option.bind_splits)

lemma end_mut_state: "end_mut this s = Some (r, s') \<Longrightarrow> detach this s = Some s'"
  by (auto simp: end_mut_def split: Option.bind_splits)

lemma coherent_subscript_index:
  "coherent s \<Longrightarrow> subscript_index star index this s = Some (r, s') \<Longrightarrow> coherent s'"
  using subscript_index_state coherent_detach by blast

lemma coherent_begin_mut: "coherent s \<Longrightarrow> begin_mut this s = Some (r, s') \<Longrightarrow> coherent s'"
  using begin_mut_state coherent_detach by blast

lemma coherent_end_mut: "coherent s \<Longrightarrow> end_mut this s = Some (r, s') \<Longrightarrow> coherent s'"
  using end_mut_state coherent_detach by blast

text \<open>The implicit assignment does not keep the state coherent.\<close>

lemma assign_not_coherent:
  "coherent two_empty \<and> MyVector_assign 1 0 two_empty = Some two_assigned
   \<and> \<not> coherent two_assigned"
proof -
  have eq: "snd (MyVector (snd (MyVector init))) = two_empty"
    by (simp add: MyVector_def init_def two_empty_def store_ops)
  have "coherent (snd (MyVector (snd (MyVector (init :: nat state)))))"
    by (intro coherent_MyVector coherent_init)
  then have "coherent two_empty"
    by (simp only: eq)
  moreover have "MyVector_assign 1 0 two_empty = Some two_assigned"
    by (simp add: MyVector_assign_def two_empty_def two_assigned_def store_ops)
  moreover have "\<not> coherent two_assigned"
  proof
    assume "coherent two_assigned"
    moreover have "cell (counts_mem two_assigned) 0 = Some 1"
      by (simp add: two_assigned_def cell_def)
    ultimately have "1 = holders two_assigned 0"
      using coherent_count by blast
    then show False
      by (simp add: holders_def two_assigned_def)
  qed
  ultimately show ?thesis by simp
qed

section \<open>Isolation where the members detach\<close>

lemma update_block_frame:
  assumes coh: "coherent s" and l: "live s this h vs ns 1"
    and other: "cell (objects s) other = Some ho" "other \<noteq> this"
  shows "untouched s (s\<lparr>values_mem := store (values_mem s) (m_values h) vs',
                         names_mem := store (names_mem s) (m_names h) ns'\<rparr>) other"
  using exclusive_apart [OF coh l other] other(1)
  by (simp add: untouched_def cell_store)

lemma untouched_trans: "untouched s s1 other \<Longrightarrow> untouched s1 s2 other \<Longrightarrow> untouched s s2 other"
  by (auto simp: untouched_def split: option.splits)

lemma untouched_refl: "cell (objects s) other = Some ho \<Longrightarrow> untouched s s other"
  by (simp add: untouched_def)

lemma detach_untouched:
  assumes "coherent s" "detach this s = Some s'" "cell (objects s) other = Some ho" "other \<noteq> this"
  shows "untouched s s' other"
  using detach_frame [OF assms] assms(3) by (simp add: untouched_def)

lemma push_back_untouched:
  assumes coh: "coherent s" and run: "push_back val name this s = Some s'"
    and other: "cell (objects s) other = Some ho" "other \<noteq> this"
  shows "untouched s s' other"
proof -
  from push_back_steps [OF coh run] obtain s1 h1 vs1 ns1 where
    d: "detach this s = Some s1" and c1: "coherent s1" and l1: "live s1 this h1 vs1 ns1 1" and
    s': "s' = s1\<lparr>values_mem := store (values_mem s1) (m_values h1) (vec_push_back vs1 val),
                 names_mem := store (names_mem s1) (m_names h1) (vec_push_back ns1 name)\<rparr>"
    by blast
  have u1: "untouched s s1 other"
    using coh d other by (rule detach_untouched)
  then have "cell (objects s1) other = Some ho"
    using other(1) by (simp add: untouched_def)
  from update_block_frame [OF c1 l1 this other(2)] s' have "untouched s1 s' other"
    by simp
  with u1 show ?thesis by (rule untouched_trans)
qed

lemma clear_untouched:
  assumes coh: "coherent s" and run: "clear this s = Some s'"
    and other: "cell (objects s) other = Some ho" "other \<noteq> this"
  shows "untouched s s' other"
proof -
  from clear_steps [OF coh run] obtain s1 h1 vs1 ns1 where
    d: "detach this s = Some s1" and c1: "coherent s1" and l1: "live s1 this h1 vs1 ns1 1" and
    s': "s' = s1\<lparr>values_mem := store (values_mem s1) (m_values h1) (vec_clear vs1),
                 names_mem := store (names_mem s1) (m_names h1) (vec_clear ns1)\<rparr>"
    by blast
  have u1: "untouched s s1 other"
    using coh d other by (rule detach_untouched)
  then have "cell (objects s1) other = Some ho"
    using other(1) by (simp add: untouched_def)
  from update_block_frame [OF c1 l1 this other(2)] s' have "untouched s1 s' other"
    by simp
  with u1 show ?thesis by (rule untouched_trans)
qed

lemma subscript_index_untouched:
  assumes "coherent s" "subscript_index star index this s = Some (r, s')"
    "cell (objects s) other = Some ho" "other \<noteq> this"
  shows "untouched s s' other"
  using subscript_index_state [OF assms(2)] detach_untouched [OF assms(1) _ assms(3,4)]
    untouched_refl [OF assms(3)]
  by auto

lemma begin_mut_untouched:
  assumes "coherent s" "begin_mut this s = Some (r, s')"
    "cell (objects s) other = Some ho" "other \<noteq> this"
  shows "untouched s s' other"
  using begin_mut_state [OF assms(2)] detach_untouched [OF assms(1) _ assms(3,4)] by auto

lemma end_mut_untouched:
  assumes "coherent s" "end_mut this s = Some (r, s')"
    "cell (objects s) other = Some ho" "other \<noteq> this"
  shows "untouched s s' other"
  using end_mut_state [OF assms(2)] detach_untouched [OF assms(1) _ assms(3,4)] by auto

text \<open>The copy constructor: the new object has the members of the source, no vector is
  copied or changed, and the shared counter goes up by one.\<close>

lemma MyVector_copy_aliases:
  assumes "live s other ho vs ns c" and "c + 1 < 2 ^ 64"
  shows "\<exists>s'. MyVector_copy other s = Some (length (objects s), s')
       \<and> values_mem s' = values_mem s \<and> names_mem s' = names_mem s
       \<and> live s' other ho vs ns (c + 1) \<and> live s' (length (objects s)) ho vs ns (c + 1)"
proof -
  note b = live_bounds [OF assms(1)]
  have eta: "\<lparr>m_values = m_values ho, m_names = m_names ho, m_ref_count = m_ref_count ho\<rparr> = ho"
    by (cases ho) simp
  have inc: "size_t_inc c = c + 1"
    using assms(2) by (simp add: size_t_inc_def)
  let ?s' = "s\<lparr>counts_mem := store (counts_mem s) (m_ref_count ho) (c + 1),
               objects := objects s @ [Some ho]\<rparr>"
  have "MyVector_copy other s = Some (length (objects s), ?s')"
    using assms(1) inc eta by (simp add: MyVector_copy_def new_def live_def)
  moreover have "live ?s' other ho vs ns (c + 1)" "live ?s' (length (objects s)) ho vs ns (c + 1)"
    using assms(1) b by (simp_all add: live_def cell_snoc cell_store)
  ultimately show ?thesis by simp
qed

text \<open>The destructor: the object is gone; the counter goes down by one, and the block is
  freed exactly when it reaches zero.\<close>

lemma MyVector_destroy_spec:
  assumes "live s this h vs ns c" and "0 < c" and "c < 2 ^ 64"
  shows "\<exists>s'. MyVector_destroy this s = Some s' \<and> cell (objects s') this = None
       \<and> (c = 1 \<longrightarrow> cell (counts_mem s') (m_ref_count h) = None
             \<and> cell (values_mem s') (m_values h) = None \<and> cell (names_mem s') (m_names h) = None)
       \<and> (1 < c \<longrightarrow> cell (counts_mem s') (m_ref_count h) = Some (c - 1)
             \<and> cell (values_mem s') (m_values h) = Some vs \<and> cell (names_mem s') (m_names h) = Some ns)"
proof -
  note b = live_bounds [OF assms(1)]
  have dec: "size_t_dec c = c - 1"
    using assms(2,3) by (rule size_t_dec_pred)
  show ?thesis
  proof (cases "c = 1")
    case True
    with assms(1) dec b show ?thesis
      by (simp add: MyVector_destroy_def live_def delete_def cell_store cell_clear)
  next
    case False
    with assms(2) have "1 < c" by simp
    with assms(1) dec b show ?thesis
      by (simp add: MyVector_destroy_def live_def delete_def cell_store cell_clear)
  qed
qed

section \<open>Reference counting\<close>

text \<open>
  C1.  The reference count of a block equals the number of live handles that point to it;
  copy construction and copy assignment both alias the source's block and increment the
  count, destruction decrements it and frees the block exactly at zero.

  The members the class defines do this: the constructors, the destructor, \<open>detach\<close> and
  the mutators keep a state coherent (\<open>coherent_MyVector\<close>, \<open>coherent_MyVector_copy\<close>,
  \<open>coherent_MyVector_destroy\<close>, \<open>coherent_detach\<close>, \<open>coherent_push_back\<close>,
  \<open>coherent_clear\<close>, \<open>coherent_reserve\<close>, \<open>coherent_subscript_index\<close>); the copy
  constructor aliases and increments (\<open>MyVector_copy_aliases\<close>) and the destructor
  decrements and frees at zero (\<open>MyVector_destroy_spec\<close>).  Copy assignment does not.
  The class has no copy assignment operator of its own, so \<^verbatim>\<open>b = a\<close> only copies the
  three pointers.  After \<^verbatim>\<open>MyVector<unsigned> a; MyVector<unsigned> b; b = a;\<close> the block
  of \<open>a\<close> has count 1 and two holders, the former block of \<open>b\<close> has count 1 and no holder,
  and destroying \<open>b\<close> frees the vectors \<open>a\<close> still points to, so that destroying \<open>a\<close>
  afterwards is undefined.
\<close>

theorem assign_breaks_count:
  "MyVector_assign 1 0 two_empty = Some two_assigned
   \<and> cell (counts_mem two_assigned) 0 = Some 1 \<and> holders two_assigned 0 = 2
   \<and> cell (counts_mem two_assigned) 1 = Some 1 \<and> holders two_assigned 1 = 0
   \<and> (\<exists>s. MyVector_destroy 1 two_assigned = Some s
         \<and> cell (objects s) 0 = Some \<lparr>m_values = 0, m_names = 0, m_ref_count = 0\<rparr>
         \<and> cell (values_mem s) 0 = None \<and> cell (counts_mem s) 0 = None
         \<and> MyVector_destroy 0 s = None)"
  by (simp add: MyVector_assign_def MyVector_destroy_def two_empty_def two_assigned_def
      holders_def store_ops)

section \<open>Lookup by name\<close>

text \<open>
  C2.  The mutable lookup by name detaches when a match exists, before it returns the
  mutable reference, so that a write through that reference never reaches a block whose
  count exceeds 1.

  The mutable operator only forwards to the const one.  With \<open>a\<close> holding \<open>(1, "a")\<close> and
  \<open>b\<close> copy-constructed from it, \<^verbatim>\<open>b["a"]\<close> leaves the state as it is and returns a
  reference into the block both share, whose count is 2; \<^verbatim>\<open>b["a"] = 5\<close> writes there.
\<close>

theorem name_write_hits_shared_block:
  "subscript_name ''a'' 1 shared_pair = Some (Inr (Ref 0 1 0), shared_pair)
   \<and> cell (objects shared_pair) 1 = Some \<lparr>m_values = 0, m_names = 0, m_ref_count = 0\<rparr>
   \<and> cell (counts_mem shared_pair) 0 = Some 2
   \<and> (\<exists>s. write_value (Ref 0 1 0) 5 shared_pair = Some s \<and> cell (counts_mem s) 0 = Some 2
         \<and> cell (values_mem s) 0 = Some \<lparr>elems = [5], capacity = 1, buffer = 1\<rparr>)"
  by (simp add: subscript_name_def subscript_name_const_def write_value_def shared_pair_def
      store_ops)

text \<open>
  C3.  After \<open>b\<close> is copy-constructed or copy-assigned from \<open>a\<close>, no mutating operation on
  \<open>b\<close> changes a value or name observable through \<open>a\<close>.

  In a coherent state the members that call \<open>detach\<close> leave every other object and its
  vectors untouched (\<open>push_back_untouched\<close>, \<open>clear_untouched\<close>,
  \<open>subscript_index_untouched\<close>, \<open>begin_mut_untouched\<close>, \<open>end_mut_untouched\<close>); these
  lemmas speak of the state in which the member returns, not of later writes through what it
  returned.  \<open>reserve\<close> changes no element but reallocates vectors that may be shared.
  The mutable lookup by name and the assignment break the property.
  With \<open>b\<close> copy-constructed from \<open>a\<close>, \<^verbatim>\<open>a["a"]\<close> reads 1 before and 5 after
  \<^verbatim>\<open>b["a"] = 5\<close>.  With \<open>b\<close> assigned from \<open>a\<close>, \<^verbatim>\<open>b.push_back(2, "b")\<close> finds the
  count at 1, does not detach, and \<open>a\<close> grows from no entry to one.
\<close>

theorem copy_not_isolated:
  "MyVector_copy 0 one_entry = Some (1, shared_pair)
   \<and> subscript_name_const ''a'' 0 shared_pair = Some (Inr (Ref 0 1 0))
   \<and> read_value (Ref 0 1 0) shared_pair = Some 1
   \<and> subscript_name ''a'' 1 shared_pair = Some (Inr (Ref 0 1 0), shared_pair)
   \<and> (\<exists>s. write_value (Ref 0 1 0) 5 shared_pair = Some s
         \<and> subscript_name_const ''a'' 0 s = Some (Inr (Ref 0 1 0)) \<and> read_value (Ref 0 1 0) s = Some 5)
   \<and> MyVector_assign 1 0 two_empty = Some two_assigned
   \<and> size_const 0 two_assigned = Some 0
   \<and> (\<exists>s. push_back 2 ''b'' 1 two_assigned = Some s \<and> size_const 0 s = Some 1)"
  by (simp add: MyVector_copy_def MyVector_assign_def subscript_name_def
      subscript_name_const_def write_value_def read_value_def push_back_def detach_def
      size_const_def one_entry_def shared_pair_def two_empty_def two_assigned_def store_ops)

text \<open>
  C7.  Lookup by name, const or not, throws exactly when no stored name equals the queried
  one; the exception carries the queried name (it opens the message), it is thrown only
  when the scan has reached the end of the names, and the failed lookup leaves the state,
  reference count included, as it was.
\<close>

theorem name_not_found:
  assumes "live s this h vs ns c"
  shows "(subscript_name_const name this s =
            Some (Inl (Invalid_argument (name @ '' is not found in the MyVector'')))
          \<longleftrightarrow> name \<notin> set (elems ns))
       \<and> ((\<exists>r. subscript_name_const name this s = Some (Inr r)) \<longleftrightarrow> name \<in> set (elems ns))
       \<and> (subscript_name name this s =
            Some (Inl (Invalid_argument (name @ '' is not found in the MyVector'')), s)
          \<longleftrightarrow> name \<notin> set (elems ns))
       \<and> ((\<exists>r. subscript_name name this s = Some (Inr r, s)) \<longleftrightarrow> name \<in> set (elems ns))
       \<and> (std_find (elems ns) name = length (elems ns) \<longleftrightarrow> name \<notin> set (elems ns))"
proof (cases "name \<in> set (elems ns)")
  case True
  then have "std_find (elems ns) name \<noteq> length (elems ns)"
    by (simp add: std_find_end)
  moreover from this have "std_find (elems ns) name < length (elems vs)"
    using std_find_le [of "elems ns" name] assms by (simp add: live_def)
  ultimately have
    "subscript_name_const name this s = Some (Inr (Ref (m_values h) (buffer vs) (std_find (elems ns) name)))"
    using assms by (simp add: subscript_name_const_def live_def vec_at_def)
  with True show ?thesis
    by (simp add: subscript_name_def std_find_end)
next
  case False
  then have "std_find (elems ns) name = length (elems ns)"
    by (simp add: std_find_end)
  then have "subscript_name_const name this s =
      Some (Inl (Invalid_argument (name @ '' is not found in the MyVector'')))"
    using assms by (simp add: subscript_name_const_def live_def)
  with False show ?thesis
    by (simp add: subscript_name_def std_find_end)
qed

theorem name_not_found_witness:
  "live three_entries 0 \<lparr>m_values = 0, m_names = 0, m_ref_count = 0\<rparr>
     \<lparr>elems = [1, 2, 3], capacity = 4, buffer = 3\<rparr> \<lparr>elems = [''a'', ''b'', ''a''], capacity = 4, buffer = 3\<rparr> 1
   \<and> subscript_name_const ''z'' 0 three_entries =
       Some (Inl (Invalid_argument ''z is not found in the MyVector''))
   \<and> subscript_name ''z'' 0 three_entries =
       Some (Inl (Invalid_argument ''z is not found in the MyVector''), three_entries)
   \<and> (\<exists>r. subscript_name_const ''b'' 0 three_entries = Some (Inr r))
   \<and> (\<exists>r. subscript_name ''b'' 0 three_entries = Some (Inr r, three_entries))"
  using live_three_entries
    name_not_found [OF live_three_entries, of "''z''"]
    name_not_found [OF live_three_entries, of "''b''"]
  by simp

text \<open>
  C8.  When the name occurs, lookup by name returns the value paired with its first
  occurrence: if \<open>i\<close> is the first position that holds the name, the result refers to
  position \<open>i\<close> of the values.  On \<open>[("a",1), ("b",2), ("a",3)]\<close> the lookup of \<open>"a"\<close>
  yields 1.
\<close>

theorem name_first_match:
  assumes "live s this h vs ns c"
    and "i < length (elems ns)" and "elems ns ! i = name" and "\<forall>j<i. elems ns ! j \<noteq> name"
  shows "subscript_name_const name this s = Some (Inr (Ref (m_values h) (buffer vs) i))
       \<and> subscript_name name this s = Some (Inr (Ref (m_values h) (buffer vs) i), s)
       \<and> read_value (Ref (m_values h) (buffer vs) i) s = Some (elems vs ! i)"
proof -
  have "std_find (elems ns) name = i"
    using assms(2-4) by (rule std_find_first)
  then have "subscript_name_const name this s = Some (Inr (Ref (m_values h) (buffer vs) i))"
    using assms(1,2) by (simp add: subscript_name_const_def live_def vec_at_def)
  moreover have "read_value (Ref (m_values h) (buffer vs) i) s = Some (elems vs ! i)"
    using assms(1,2) by (simp add: read_value_def live_def)
  ultimately show ?thesis by (simp add: subscript_name_def)
qed

theorem name_first_match_witness:
  "live three_entries 0 \<lparr>m_values = 0, m_names = 0, m_ref_count = 0\<rparr>
     \<lparr>elems = [1, 2, 3], capacity = 4, buffer = 3\<rparr> \<lparr>elems = [''a'', ''b'', ''a''], capacity = 4, buffer = 3\<rparr> 1
   \<and> subscript_name_const ''a'' 0 three_entries = Some (Inr (Ref 0 3 0))
   \<and> read_value (Ref 0 3 0) three_entries = Some 1
   \<and> subscript_name_const ''b'' 0 three_entries = Some (Inr (Ref 0 3 1))
   \<and> read_value (Ref 0 3 1) three_entries = Some 2"
proof -
  have a: "(0::nat) < length (elems \<lparr>elems = [''a'', ''b'', ''a''], capacity = 4, buffer = 3\<rparr>)"
      "elems \<lparr>elems = [''a'', ''b'', ''a''], capacity = 4, buffer = 3\<rparr> ! 0 = ''a''"
      "\<forall>j<0::nat. elems \<lparr>elems = [''a'', ''b'', ''a''], capacity = 4, buffer = 3\<rparr> ! j \<noteq> ''a''"
    by simp_all
  have b: "(1::nat) < length (elems \<lparr>elems = [''a'', ''b'', ''a''], capacity = 4, buffer = 3\<rparr>)"
      "elems \<lparr>elems = [''a'', ''b'', ''a''], capacity = 4, buffer = 3\<rparr> ! 1 = ''b''"
      "\<forall>j<1::nat. elems \<lparr>elems = [''a'', ''b'', ''a''], capacity = 4, buffer = 3\<rparr> ! j \<noteq> ''b''"
    by simp_all
  show ?thesis
    using live_three_entries name_first_match [OF live_three_entries a]
      name_first_match [OF live_three_entries b]
    by simp
qed

text \<open>
  C10.  The mutable and the const lookup by name select the same element and fail on the
  same inputs: the mutable one returns what the const one returns, in an unchanged state,
  and is undefined exactly where the const one is.
\<close>

theorem subscript_name_agrees:
  "subscript_name name this s = map_option (\<lambda>r. (r, s)) (subscript_name_const name this s)"
  by (cases "subscript_name_const name this s") (simp_all add: subscript_name_def)

theorem subscript_name_agrees_witness:
  "subscript_name ''a'' 0 three_entries = Some (Inr (Ref 0 3 0), three_entries)
   \<and> subscript_name ''z'' 0 three_entries =
       Some (Inl (Invalid_argument ''z is not found in the MyVector''), three_entries)"
  using subscript_name_agrees [of "''a''" 0 three_entries]
    subscript_name_agrees [of "''z''" 0 three_entries]
  by (simp add: subscript_name_const_def three_entries_def store_ops)

section \<open>Detachment\<close>

text \<open>
  C9.  Detachment does nothing when the count is 1.  When the count is larger, it creates
  a new block (addresses not in use before) whose values and names equal the old ones in
  content and order, leaves the handle on the new block with count 1, and lowers the old
  block's count by exactly one; the old block's vectors and all other objects stay as they
  were.  The two cases are all there are: the counter of a live object is never 0, since the
  destructor deletes a counter that reaches 0 and \<open>detach\<close> only decrements one above 1
  (\<open>coherent_count_pos\<close> for coherent states).
\<close>

theorem detach_spec:
  assumes "live s this h vs ns c" and "c < 2 ^ 64"
  shows "(c = 1 \<longrightarrow> detach this s = Some s)
       \<and> (1 < c \<longrightarrow> (\<exists>s' h' vs' ns'. detach this s = Some s'
             \<and> live s' this h' vs' ns' 1
             \<and> elems vs' = elems vs \<and> elems ns' = elems ns
             \<and> cell (values_mem s) (m_values h') = None
             \<and> cell (names_mem s) (m_names h') = None
             \<and> cell (counts_mem s) (m_ref_count h') = None
             \<and> cell (counts_mem s') (m_ref_count h) = Some (c - 1)
             \<and> cell (values_mem s') (m_values h) = Some vs
             \<and> cell (names_mem s') (m_names h) = Some ns
             \<and> (\<forall>other. other \<noteq> this \<longrightarrow> cell (objects s') other = cell (objects s) other)))"
proof (intro conjI impI)
  assume "c = 1"
  with assms show "detach this s = Some s"
    by (simp add: detach_def live_def)
next
  assume shared: "1 < c"
  let ?h' = "\<lparr>m_values = length (values_mem s), m_names = length (names_mem s),
              m_ref_count = length (counts_mem s)\<rparr>"
  let ?s' = "\<lparr>values_mem = values_mem s @ [Some (vec_copy vs)],
      names_mem = names_mem s @ [Some (vec_copy ns)],
      counts_mem = store (counts_mem s) (m_ref_count h) (size_t_dec c) @ [Some 1],
      objects = store (objects s) this ?h'\<rparr>"
  from assms shared have d: "detach this s = Some ?s'"
    by (intro detach_shared) (simp_all add: live_def)
  from assms have lt: "this < length (objects s)" "m_values h < length (values_mem s)"
      "m_names h < length (names_mem s)" "m_ref_count h < length (counts_mem s)"
    by (auto simp: live_def dest: cell_Some_less)
  have dec: "size_t_dec c = c - 1"
    using shared assms(2) by (intro size_t_dec_pred) simp_all
  have l: "live ?s' this ?h' (vec_copy vs) (vec_copy ns) 1"
    using assms lt by (simp add: live_def cell_store cell_snoc length_store vec_copy_def)
  have e: "elems (vec_copy vs) = elems vs" "elems (vec_copy ns) = elems ns"
    by (simp_all add: vec_copy_def)
  have fresh: "cell (values_mem s) (m_values ?h') = None"
      "cell (names_mem s) (m_names ?h') = None" "cell (counts_mem s) (m_ref_count ?h') = None"
    by (simp_all add: cell_def)
  have old: "cell (counts_mem ?s') (m_ref_count h) = Some (c - 1)"
      "cell (values_mem ?s') (m_values h) = Some vs" "cell (names_mem ?s') (m_names h) = Some ns"
    using assms lt dec by (simp_all add: live_def cell_store cell_snoc length_store)
  have others: "\<forall>other. other \<noteq> this \<longrightarrow> cell (objects ?s') other = cell (objects s) other"
    by (simp add: cell_store)
  from d l e fresh old others
  show "\<exists>s' h' vs' ns'. detach this s = Some s'
             \<and> live s' this h' vs' ns' 1
             \<and> elems vs' = elems vs \<and> elems ns' = elems ns
             \<and> cell (values_mem s) (m_values h') = None
             \<and> cell (names_mem s) (m_names h') = None
             \<and> cell (counts_mem s) (m_ref_count h') = None
             \<and> cell (counts_mem s') (m_ref_count h) = Some (c - 1)
             \<and> cell (values_mem s') (m_values h) = Some vs
             \<and> cell (names_mem s') (m_names h) = Some ns
             \<and> (\<forall>other. other \<noteq> this \<longrightarrow> cell (objects s') other = cell (objects s) other)"
    by blast
qed

theorem detach_spec_witness:
  "live one_entry 0 \<lparr>m_values = 0, m_names = 0, m_ref_count = 0\<rparr>
     \<lparr>elems = [1], capacity = 1, buffer = 1\<rparr> \<lparr>elems = [''a''], capacity = 1, buffer = 1\<rparr> 1
   \<and> detach 0 one_entry = Some one_entry
   \<and> live shared_pair 1 \<lparr>m_values = 0, m_names = 0, m_ref_count = 0\<rparr>
     \<lparr>elems = [1], capacity = 1, buffer = 1\<rparr> \<lparr>elems = [''a''], capacity = 1, buffer = 1\<rparr> 2
   \<and> (\<exists>s' h' vs' ns'. detach 1 shared_pair = Some s' \<and> live s' 1 h' vs' ns' 1
         \<and> elems vs' = [1] \<and> elems ns' = [''a'']
         \<and> cell (counts_mem shared_pair) (m_ref_count h') = None
         \<and> cell (counts_mem s') 0 = Some 1
         \<and> cell (objects s') 0 = cell (objects shared_pair) 0)"
proof -
  have small: "(1::nat) < 2 ^ 64" "(2::nat) < 2 ^ 64"
    by simp_all
  have "detach 0 one_entry = Some one_entry"
    using detach_spec [OF live_one_entry small(1)] by simp
  moreover have "\<exists>s' h' vs' ns'. detach 1 shared_pair = Some s' \<and> live s' 1 h' vs' ns' 1
         \<and> elems vs' = [1] \<and> elems ns' = [''a'']
         \<and> cell (counts_mem shared_pair) (m_ref_count h') = None
         \<and> cell (counts_mem s') 0 = Some 1
         \<and> cell (objects s') 0 = cell (objects shared_pair) 0"
    using detach_spec [OF live_shared_pair small(2)] by simp blast
  ultimately show ?thesis
    using live_one_entry live_shared_pair by simp
qed

section \<open>Reserving capacity\<close>

text \<open>
  What \<open>reserve\<close> does.  For a request within \<^verbatim>\<open>max_size()\<close> of both vectors (which
  makes it a \<^verbatim>\<open>size_t\<close>) it returns
  normally, both vectors of the object's block have capacity for at least \<open>n\<close> elements,
  and no vector of the state has lost, gained or changed an element.  The objects and the
  counters are as before: there is no detachment.
\<close>

lemma reserve_within_max_size:
  assumes "live s this h vs ns c" and "n \<le> max_values" and "n \<le> max_names"
    and "max_values < 2 ^ 64" and "max_names < 2 ^ 64"
  shows "\<exists>s' vs' ns'. reserve max_values max_names n this s = Some (Inr (), s')
       \<and> objects s' = objects s \<and> counts_mem s' = counts_mem s
       \<and> live s' this h vs' ns' c
       \<and> n \<le> capacity vs' \<and> n \<le> capacity ns'
       \<and> (\<forall>a. map_option elems (cell (values_mem s') a) = map_option elems (cell (values_mem s) a))
       \<and> (\<forall>a. map_option elems (cell (names_mem s') a) = map_option elems (cell (names_mem s) a))"
proof -
  define vs' where "vs' = (if capacity vs < n then vs\<lparr>capacity := n, buffer := Suc (buffer vs)\<rparr> else vs)"
  define ns' where "ns' = (if capacity ns < n then ns\<lparr>capacity := n, buffer := Suc (buffer ns)\<rparr> else ns)"
  let ?s' = "s\<lparr>values_mem := store (values_mem s) (m_values h) vs',
               names_mem := store (names_mem s) (m_names h) ns'\<rparr>"
  have rv: "vec_reserve max_values vs n = Inr vs'" "vec_reserve max_names ns n = Inr ns'"
    using assms(2,3) by (simp_all add: vec_reserve_def vs'_def ns'_def)
  from assms(1) have lt: "m_values h < length (values_mem s)" "m_names h < length (names_mem s)"
    by (auto simp: live_def dest: cell_Some_less)
  from assms(1) rv have r: "reserve max_values max_names n this s = Some (Inr (), ?s')"
    by (simp add: reserve_def live_def)
  have e: "elems vs' = elems vs" "elems ns' = elems ns"
    by (simp_all add: vs'_def ns'_def)
  have l: "live ?s' this h vs' ns' c"
    using assms(1) lt e by (simp add: live_def cell_store)
  have cap: "n \<le> capacity vs'" "n \<le> capacity ns'"
    by (simp_all add: vs'_def ns'_def)
  have same:
    "\<forall>a. map_option elems (cell (values_mem ?s') a) = map_option elems (cell (values_mem s) a)"
    "\<forall>a. map_option elems (cell (names_mem ?s') a) = map_option elems (cell (names_mem s) a)"
    using assms(1) e by (simp_all add: live_def cell_store)
  have fr: "objects ?s' = objects s" "counts_mem ?s' = counts_mem s"
    by simp_all
  from r fr l cap same show ?thesis by blast
qed

text \<open>A request above \<^verbatim>\<open>max_size()\<close> of the values throws and leaves the state as it
  was.\<close>

lemma reserve_above_max_size:
  assumes "live s this h vs ns c" and "max_values < n"
  shows "reserve max_values max_names n this s = Some (Inl Length_error, s)"
  using assms by (simp add: reserve_def live_def vec_reserve_def)

text \<open>
  C5.  \<open>reserve n\<close> first makes the handle the only owner of its block, detaching if the
  block is shared, then reserves capacity in both vectors, and changes no size, value or
  name.

  The source calls \<^verbatim>\<open>reserve\<close> on both vectors and nothing before it, where
  \<^verbatim>\<open>push_back\<close>, \<^verbatim>\<open>clear\<close>, \<^verbatim>\<open>begin\<close>, \<^verbatim>\<open>end\<close> and the mutable access by position
  call \<^verbatim>\<open>detach()\<close> first.  With \<open>a\<close> holding \<open>(1, "a")\<close> and \<open>b\<close> copy-constructed from
  it, \<^verbatim>\<open>b.reserve(10)\<close> leaves \<open>b\<close> on the block it shares with \<open>a\<close> with the count at
  2, and reallocates the shared vectors: a reference obtained through \<open>a\<close> before the call,
  which read 1, dangles after it.
\<close>

theorem reserve_reallocates_shared_block:
  "subscript_index_const 0 0 shared_pair = Some (Inr (Ref 0 1 0, Ref 0 1 0))
   \<and> read_value (Ref 0 1 0) shared_pair = Some 1
   \<and> read_name (Ref 0 1 0) shared_pair = Some ''a''
   \<and> (\<exists>s. reserve max_size_unsigned max_size_string 10 1 shared_pair = Some (Inr (), s)
         \<and> cell (objects s) 1 = Some \<lparr>m_values = 0, m_names = 0, m_ref_count = 0\<rparr>
         \<and> cell (objects s) 0 = Some \<lparr>m_values = 0, m_names = 0, m_ref_count = 0\<rparr>
         \<and> cell (counts_mem s) 0 = Some 2
         \<and> cell (values_mem s) 0 = Some \<lparr>elems = [1], capacity = 10, buffer = 2\<rparr>
         \<and> cell (names_mem s) 0 = Some \<lparr>elems = [''a''], capacity = 10, buffer = 2\<rparr>
         \<and> read_value (Ref 0 1 0) s = None
         \<and> read_name (Ref 0 1 0) s = None
         \<and> \<not> untouched shared_pair s 0)"
  by (simp add: subscript_index_const_def reserve_def read_value_def read_name_def
      untouched_def shared_pair_def max_size_unsigned_def max_size_string_def store_ops)

section \<open>Access by position\<close>

text \<open>
  What the mutable operator does for a position in range: detach, then return the result
  of \<open>star\<close> on the element at that position, with a reference to the name at that
  position in the (possibly new) names vector.
\<close>

lemma subscript_index_in_range:
  assumes "live s this h vs ns c" and "index < length (elems vs)"
  shows "\<exists>s1 h1 vs1 ns1 c1. detach this s = Some s1 \<and> live s1 this h1 vs1 ns1 c1
       \<and> elems vs1 = elems vs \<and> elems ns1 = elems ns \<and> c1 = (if 1 < c then 1 else c)
       \<and> subscript_index star index this s =
           Some (Inr (star (elems vs ! index), Ref (m_names h1) (buffer ns1) index), s1)"
proof -
  from detach_live [OF assms(1)] obtain s1 h1 vs1 ns1 c1 where
    d: "detach this s = Some s1" "live s1 this h1 vs1 ns1 c1" "elems vs1 = elems vs"
      "elems ns1 = elems ns" "c1 = (if 1 < c then 1 else c)"
    by blast
  with assms have "subscript_index star index this s =
      Some (Inr (star (elems vs ! index), Ref (m_names h1) (buffer ns1) index), s1)"
    by (simp add: subscript_index_def live_def vec_at_def)
  with d show ?thesis by blast
qed

text \<open>
  C4.  The mutable access by position, for a position in range, detaches and then returns
  references to the value and to the name stored at that position.

  The source returns \<^verbatim>\<open>*(*m_values)[index]\<close>: what the element's own unary \<^verbatim>\<open>*\<close>
  yields, where the const overload returns the element \<^verbatim>\<open>(*m_values)[index]\<close>.  On the
  vector of two links, position 0 gives a reference to position 1 of the values; the const
  overload gives position 0.
\<close>

theorem subscript_index_follows_star:
  "subscript_index link_star 0 0 two_links = Some (Inr (Ref 0 2 1, Ref 0 2 0), two_links)
   \<and> subscript_index_const 0 0 two_links = Some (Inr (Ref 0 2 0, Ref 0 2 0))"
  by (simp add: subscript_index_def subscript_index_const_def detach_def link_star_def
      two_links_def store_ops)

text \<open>
  C6, as the code has it.  Access by position, const or not, throws
  \<^verbatim>\<open>std::out_of_range\<close> exactly when the position is at least the size; the exception
  carries the fixed message and nothing else; the mutable operator throws in the state it
  was called in, before \<open>detach\<close>.
\<close>

theorem index_out_of_range:
  assumes "live s this h vs ns c"
  shows "(subscript_index_const index this s = Some (Inl (Out_of_range ''Index is out of range''))
          \<longleftrightarrow> length (elems vs) \<le> index)
       \<and> ((\<exists>r. subscript_index_const index this s = Some (Inr r)) \<longleftrightarrow> index < length (elems vs))
       \<and> (subscript_index star index this s =
            Some (Inl (Out_of_range ''Index is out of range''), s)
          \<longleftrightarrow> length (elems vs) \<le> index)
       \<and> ((\<exists>r s'. subscript_index star index this s = Some (Inr r, s'))
          \<longleftrightarrow> index < length (elems vs))"
proof (cases "index < length (elems vs)")
  case True
  with assms have
    "subscript_index_const index this s = Some (Inr (Ref (m_values h) (buffer vs) index, Ref (m_names h) (buffer ns) index))"
    by (simp add: subscript_index_const_def live_def vec_at_def)
  moreover from subscript_index_in_range [OF assms True, of star]
  have "\<exists>r s'. subscript_index star index this s = Some (Inr r, s')"
    by blast
  ultimately show ?thesis using True by auto
next
  case False
  with assms have
    "subscript_index_const index this s = Some (Inl (Out_of_range ''Index is out of range''))"
    by (simp add: subscript_index_const_def live_def)
  moreover from False assms have "subscript_index star index this s =
      Some (Inl (Out_of_range ''Index is out of range''), s)"
    by (simp add: subscript_index_def live_def)
  ultimately show ?thesis using False by simp
qed

theorem index_out_of_range_witness:
  "live two_links 0 \<lparr>m_values = 0, m_names = 0, m_ref_count = 0\<rparr>
     \<lparr>elems = [Ref 0 2 1, Ref 0 2 0], capacity = 2, buffer = 2\<rparr>
     \<lparr>elems = [''x'', ''y''], capacity = 2, buffer = 2\<rparr> 1
   \<and> subscript_index_const 2 0 two_links =
       Some (Inl (Out_of_range ''Index is out of range''))
   \<and> subscript_index link_star 2 0 two_links =
       Some (Inl (Out_of_range ''Index is out of range''), two_links)
   \<and> (\<exists>r. subscript_index_const 1 0 two_links = Some (Inr r))
   \<and> (\<exists>r s'. subscript_index link_star 1 0 two_links = Some (Inr r, s'))"
  using live_two_links
    index_out_of_range [OF live_two_links, of 2 link_star]
    index_out_of_range [OF live_two_links, of 1 link_star]
  by simp

text \<open>
  C6 as stated says that the exception carries the position and the size.  The exception
  is the same value for positions 3 and 7 on three entries and for position 3 on one entry,
  so neither can be read from it.
\<close>

theorem out_of_range_message_fixed:
  "subscript_index_const 3 0 three_entries = Some (Inl (Out_of_range ''Index is out of range''))
   \<and> subscript_index_const 7 0 three_entries = Some (Inl (Out_of_range ''Index is out of range''))
   \<and> subscript_index_const 3 0 one_entry = Some (Inl (Out_of_range ''Index is out of range''))
   \<and> size_const 0 three_entries = Some 3 \<and> size_const 0 one_entry = Some 1"
  by (simp add: subscript_index_const_def size_const_def three_entries_def one_entry_def
      store_ops)

end
